theory Spec2Isabelle
  imports Complex_Main "HOL-Library.AList" "HOL-Library.Word"
begin

section \<open>JavaScript values and objects\<close>

text \<open>
  Values produced by \<open>JSON.parse\<close>. A property that is missing from an object reads
  as \<open>undefined\<close>, which is \<open>None\<close> of type \<open>json option\<close> here. Objects keep their
  properties in insertion order, one entry per key.
\<close>

datatype json =
    JNull
  | JBool bool
  | JNum real
  | JStr string
  | JArr "json list"
  | JObj "(string \<times> json) list"

type_synonym jsval = "json option"

text \<open>Truthiness, as \<open>if (v)\<close>, \<open>!v\<close> and \<open>a || b\<close> use it.\<close>

fun truthy :: "json \<Rightarrow> bool" where
  "truthy JNull = False"
| "truthy (JBool b) = b"
| "truthy (JNum x) = (x \<noteq> 0)"
| "truthy (JStr s) = (s \<noteq> [])"
| "truthy (JArr xs) = True"
| "truthy (JObj fs) = True"

fun truthy_val :: "jsval \<Rightarrow> bool" where
  "truthy_val None = False"
| "truthy_val (Some v) = truthy v"

text \<open>\<open>a || b\<close>: the left operand when it is truthy, the right one otherwise.\<close>

definition js_or :: "jsval \<Rightarrow> jsval \<Rightarrow> jsval" where
  "js_or a b = (if truthy_val a then a else b)"

text \<open>
  Errors that the code throws or that the platform throws for it. \<open>JsError\<close> is
  \<open>new Error(message)\<close>, with the two optional fields the \<open>ApiError\<close> interface adds;
  \<open>TypeError\<close> is what reading a property of \<open>null\<close> raises and what \<open>fetch\<close> rejects
  with when no response arrives.
\<close>

datatype js_error =
    JsError (message: string) (status: "nat option") (details: "json option")
  | TypeError (message: string)

text \<open>
  \<open>v.name\<close> for the property names this program reads from parsed responses
  (\<open>success\<close>, \<open>error\<close>, \<open>message\<close>, \<open>uploadId\<close>, \<open>key\<close>, \<open>urls\<close>, \<open>analysisStarted\<close>,
  \<open>upload\<close>, \<open>id\<close>, \<open>analyses\<close>): \<open>null\<close> throws, an object gives its own property,
  and a boolean, number, string or array has none of these names.
\<close>

fun get_prop :: "json \<Rightarrow> string \<Rightarrow> js_error + jsval" where
  "get_prop JNull k = Inl (TypeError ''Cannot read properties of null'')"
| "get_prop (JObj fs) k = Inr (map_of fs k)"
| "get_prop v k = Inr None"

text \<open>\<open>v?.name\<close>: as \<open>v.name\<close>, except that \<open>null\<close> and \<open>undefined\<close> give \<open>undefined\<close>.\<close>

fun opt_prop :: "jsval \<Rightarrow> string \<Rightarrow> jsval" where
  "opt_prop (Some (JObj fs)) k = map_of fs k"
| "opt_prop v k = None"

text \<open>
  \<open>String(v)\<close> and the conversion \<open>new Error(v)\<close> applies to its argument. A string
  is kept as it is and \<open>undefined\<close> prints as its name; how the platform prints the
  other values is the parameter \<open>str\<close>.
\<close>

fun js_String :: "(json \<Rightarrow> string) \<Rightarrow> jsval \<Rightarrow> string" where
  "js_String str None = ''undefined''"
| "js_String str (Some (JStr s)) = s"
| "js_String str (Some v) = str v"

text \<open>Decimal digits of a natural number, as a template literal prints an integer.\<close>

definition digit_char :: "nat \<Rightarrow> char" where
  "digit_char d =
     (if d = 0 then CHR ''0'' else if d = 1 then CHR ''1'' else if d = 2 then CHR ''2''
      else if d = 3 then CHR ''3'' else if d = 4 then CHR ''4'' else if d = 5 then CHR ''5''
      else if d = 6 then CHR ''6'' else if d = 7 then CHR ''7'' else if d = 8 then CHR ''8''
      else CHR ''9'')"

function show_nat :: "nat \<Rightarrow> string" where
  "show_nat n = (if n < 10 then [digit_char n] else show_nat (n div 10) @ [digit_char (n mod 10)])"
  by pat_completeness auto
termination
  by (relation "measure id") auto

declare show_nat.simps [simp del]

text \<open>Objects with string values (header records): assignment, spread and \<open>delete\<close>.\<close>

type_synonym headers = "(string \<times> string) list"

definition obj_set :: "string \<Rightarrow> 'v \<Rightarrow> (string \<times> 'v) list \<Rightarrow> (string \<times> 'v) list" where
  "obj_set k v obj = AList.update k v obj"

definition obj_spread :: "(string \<times> 'v) list \<Rightarrow> (string \<times> 'v) list \<Rightarrow> (string \<times> 'v) list" where
  "obj_spread a b = fold (\<lambda>(k, v) acc. obj_set k v acc) b a"

definition obj_delete :: "string \<Rightarrow> (string \<times> 'v) list \<Rightarrow> (string \<times> 'v) list" where
  "obj_delete k obj = AList.delete k obj"

text \<open>
  \<open>s.toLowerCase()\<close> and \<open>s.toUpperCase()\<close> on ASCII letters. A character is given by its
  bits, lowest first. The letters are the codes 65..90 (upper case, \<open>010xxxxx\<close>) and
  97..122 (lower case, \<open>011xxxxx\<close>) with \<open>xxxxx\<close> from 1 to 26; the two cases differ in
  bit 5.
\<close>

definition letter_index :: "bool \<Rightarrow> bool \<Rightarrow> bool \<Rightarrow> bool \<Rightarrow> bool \<Rightarrow> bool" where
  "letter_index b0 b1 b2 b3 b4 =
     ((b0 \<or> b1 \<or> b2 \<or> b3 \<or> b4) \<and> \<not> (b4 \<and> b3 \<and> (b2 \<or> (b1 \<and> b0))))"

fun lower_char :: "char \<Rightarrow> char" where
  "lower_char (Char b0 b1 b2 b3 b4 b5 b6 b7) =
     (if \<not> b7 \<and> b6 \<and> \<not> b5 \<and> letter_index b0 b1 b2 b3 b4
      then Char b0 b1 b2 b3 b4 True b6 b7
      else Char b0 b1 b2 b3 b4 b5 b6 b7)"

fun upper_char :: "char \<Rightarrow> char" where
  "upper_char (Char b0 b1 b2 b3 b4 b5 b6 b7) =
     (if \<not> b7 \<and> b6 \<and> b5 \<and> letter_index b0 b1 b2 b3 b4
      then Char b0 b1 b2 b3 b4 False b6 b7
      else Char b0 b1 b2 b3 b4 b5 b6 b7)"

definition toLowerCase :: "string \<Rightarrow> string" where
  "toLowerCase s = map lower_char s"

definition toUpperCase :: "string \<Rightarrow> string" where
  "toUpperCase s = map upper_char s"

text \<open>\<open>s.replace(/\/$/, '')\<close>: one trailing slash is removed.\<close>

definition strip_trailing_slash :: "string \<Rightarrow> string" where
  "strip_trailing_slash s = (if s \<noteq> [] \<and> last s = CHR ''/'' then butlast s else s)"

section \<open>Requests and responses\<close>

text \<open>
  The address of a request. \<open>Proxied t\<close> is the relative address
  \<open>/proxy?url=\<close> followed by \<open>encodeURIComponent(t)\<close>, which the forwarding proxy
  decodes back to \<open>t\<close>; \<open>Direct u\<close> is the address \<open>u\<close> itself.
\<close>

datatype address = Proxied string | Direct string

type_synonym byte = "8 word"

datatype payload = JsonText json | Bytes "byte list"

record request =
  req_url :: address
  req_method :: string
  req_headers :: headers
  req_body :: "payload option"

text \<open>
  A response that has arrived: \<open>res_text\<close> is its body as text, and \<open>res_json\<close> is what
  \<open>JSON.parse\<close> (or \<open>res.json()\<close>) makes of that body, \<open>None\<close> when it throws. Reading
  the body of an arrived response does not fail in this model.
\<close>

record response =
  res_status :: nat
  res_headers :: headers
  res_text :: string
  res_json :: "json option"

definition res_ok :: "response \<Rightarrow> bool" where
  "res_ok r = (200 \<le> res_status r \<and> res_status r \<le> 299)"

section \<open>Validator (src/utils/validation.ts)\<close>

definition MAX_SIZE_BYTES :: int where
  "MAX_SIZE_BYTES = 5 * 1024 * 1024"

definition ACCEPTED_TYPES :: "string list" where
  "ACCEPTED_TYPES =
     [''audio/mpeg'', ''audio/wav'', ''audio/x-wav'', ''audio/wave'', ''audio/x-pn-wav'',
      ''audio/mp4'', ''audio/x-m4a'', ''audio/aac'', ''audio/ogg'', ''audio/flac'',
      ''audio/webm'']"

record ValidationResult =
  valid :: bool
  error :: "string option"

definition validateAudioFile :: "string \<Rightarrow> int \<Rightarrow> string \<Rightarrow> ValidationResult" where
  "validateAudioFile name size_bytes type =
     (if size_bytes > MAX_SIZE_BYTES then \<lparr>valid = False, error = Some ''File exceeds 5MB limit''\<rparr>
      else if type \<notin> set ACCEPTED_TYPES then \<lparr>valid = False, error = Some ''Unsupported file type''\<rparr>
      else \<lparr>valid = True, error = None\<rparr>)"

section \<open>Session client (src/api/client.ts)\<close>

record ApiClient =
  baseUrl :: string
  token :: "string option"
  includeCredentials :: bool

text \<open>The constructor; \<open>includeCredentials\<close> defaults to true when it is not given.\<close>

definition ApiClient_new :: "string \<Rightarrow> string option \<Rightarrow> bool option \<Rightarrow> ApiClient" where
  "ApiClient_new url tok cred =
     \<lparr>baseUrl = strip_trailing_slash url, token = tok,
      includeCredentials = (case cred of None \<Rightarrow> True | Some b \<Rightarrow> b)\<rparr>"

definition setToken :: "string option \<Rightarrow> ApiClient \<Rightarrow> ApiClient" where
  "setToken tok c = c\<lparr>token := tok\<rparr>"

definition createApiClient :: "string \<Rightarrow> string option \<Rightarrow> ApiClient" where
  "createApiClient url tok = ApiClient_new url tok None"

text \<open>
  \<open>if (this.token)\<close>: a token that is \<open>undefined\<close>, \<open>null\<close> or the empty string is
  falsy.
\<close>

definition buildHeaders :: "ApiClient \<Rightarrow> headers option \<Rightarrow> headers" where
  "buildHeaders c extra =
     (let headers = (case token c of
                       None \<Rightarrow> []
                     | Some t \<Rightarrow> if t \<noteq> [] then obj_set ''Authorization'' (''Bearer '' @ t) [] else [])
      in obj_spread headers (case extra of None \<Rightarrow> [] | Some e \<Rightarrow> e))"

text \<open>The request \<open>postJson\<close> hands to \<open>fetch\<close>.\<close>

definition postJson_request :: "ApiClient \<Rightarrow> string \<Rightarrow> json \<Rightarrow> bool \<Rightarrow> request" where
  "postJson_request c path body forceJsonContentType =
     (let headers = buildHeaders c
                      (if forceJsonContentType then Some [(''Content-Type'', ''application/json'')]
                       else None);
          targetUrl = baseUrl c @ path
      in \<lparr>req_url = Proxied targetUrl, req_method = ''POST'', req_headers = headers,
          req_body = Some (JsonText body)\<rparr>)"

text \<open>
  \<open>postJson\<close>: \<open>fetch\<close> either rejects or resolves with a response; \<open>res.json()\<close> that
  throws leaves \<open>data\<close> at \<open>null\<close>.
\<close>

definition postJson ::
  "(json \<Rightarrow> string) \<Rightarrow> (request \<Rightarrow> js_error + response) \<Rightarrow> ApiClient \<Rightarrow> string \<Rightarrow> json \<Rightarrow> bool
     \<Rightarrow> js_error + json" where
  "postJson str fetch c path body forceJsonContentType =
     (case fetch (postJson_request c path body forceJsonContentType) of
        Inl e \<Rightarrow> Inl e
      | Inr res \<Rightarrow>
          (let data = (case res_json res of None \<Rightarrow> JNull | Some d \<Rightarrow> d)
           in if \<not> res_ok res \<or> (truthy data \<and> get_prop data ''success'' = Inr (Some (JBool False)))
              then Inl (JsError
                          (js_String str
                             (js_or (js_or (opt_prop (Some data) ''error'') (opt_prop (Some data) ''message''))
                                (Some (JStr (''Request failed ('' @ show_nat (res_status res) @ '')'')))))
                          (Some (res_status res)) (Some data))
              else Inr data))"

section \<open>Upload orchestrator (UploadForm.tsx)\<close>

text \<open>
  What a run does to the outside: the requests it hands to \<open>fetch\<close>, the first
  argument of each \<open>pushLog\<close> call (the detail objects that follow it are only printed)
  and the values given to \<open>setProgress\<close>, in the order they happen.
\<close>

datatype event = Fetched request | Logged string | Progress nat

text \<open>
  The state a run threads through its calls: the state of the network and of the
  clock, and the events so far.
\<close>

record 'w run =
  world :: 'w
  events :: "event list"

type_synonym ('a, 'w) step = "'w run \<Rightarrow> (js_error + 'a) \<times> 'w run"

definition ret :: "'a \<Rightarrow> ('a, 'w) step" where
  "ret x s = (Inr x, s)"

definition throw :: "js_error \<Rightarrow> ('a, 'w) step" where
  "throw e s = (Inl e, s)"

definition lift :: "js_error + 'a \<Rightarrow> ('a, 'w) step" where
  "lift r s = (r, s)"

text \<open>\<open>await\<close> and sequencing: an error ends the sequence.\<close>

definition andThen :: "('a, 'w) step \<Rightarrow> ('a \<Rightarrow> ('b, 'w) step) \<Rightarrow> ('b, 'w) step" where
  "andThen m f s = (case m s of (Inl e, s') \<Rightarrow> (Inl e, s') | (Inr x, s') \<Rightarrow> f x s')"

type_synonym 'w fetcher = "'w \<Rightarrow> request \<Rightarrow> (js_error + response) \<times> 'w"

definition do_fetch :: "'w fetcher \<Rightarrow> request \<Rightarrow> (response, 'w) step" where
  "do_fetch fetch req s =
     (case fetch (world s) req of
        (r, w') \<Rightarrow> (r, s\<lparr>world := w', events := events s @ [Fetched req]\<rparr>))"

definition pushLog :: "string \<Rightarrow> (unit, 'w) step" where
  "pushLog label s = (Inr (), s\<lparr>events := events s @ [Logged label]\<rparr>)"

definition setProgress :: "nat \<Rightarrow> (unit, 'w) step" where
  "setProgress p s = (Inr (), s\<lparr>events := events s @ [Progress p]\<rparr>)"

text \<open>The arrows that open the log lines, in UTF-8.\<close>

definition arrow_right :: string where
  "arrow_right = [CHR 0xE2, CHR 0x86, CHR 0x92]"

definition arrow_left :: string where
  "arrow_left = [CHR 0xE2, CHR 0x86, CHR 0x90]"

text \<open>A file: its name, its MIME type and its bytes; \<open>f.size\<close> is their number.\<close>

record File =
  file_name :: string
  file_type :: string
  file_data :: "byte list"

definition file_size :: "File \<Rightarrow> nat" where
  "file_size f = length (file_data f)"

text \<open>\<open>buf.slice(b, e)\<close> on a typed array, for indices that are not negative.\<close>

definition slice :: "'a list \<Rightarrow> nat \<Rightarrow> nat \<Rightarrow> 'a list" where
  "slice xs b e = drop b (take e xs)"

text \<open>\<open>Math.round\<close> on a number that is not negative.\<close>

definition js_round :: "real \<Rightarrow> nat" where
  "js_round x = nat \<lfloor>x + 1 / 2\<rfloor>"

text \<open>
  \<open>JSON.stringify\<close> of an object literal leaves out the properties whose value is
  \<open>undefined\<close>.
\<close>

definition obj_lit :: "(string \<times> jsval) list \<Rightarrow> json" where
  "obj_lit ps = JObj (List.map_filter (\<lambda>(k, v). case v of None \<Rightarrow> None | Some x \<Rightarrow> Some (k, x)) ps)"

text \<open>\<open>headers.get(name)\<close>: header names compare without regard to case.\<close>

definition headers_get :: "headers \<Rightarrow> string \<Rightarrow> string option" where
  "headers_get hs name =
     (case find (\<lambda>(k, v). toLowerCase k = toLowerCase name) hs of
        None \<Rightarrow> None
      | Some (k, v) \<Rightarrow> Some v)"

definition CHUNK_SIZE :: nat where
  "CHUNK_SIZE = 5 * 1024 * 1024"

text \<open>\<open>token ? { Authorization: `Bearer ${token}` } : undefined\<close>\<close>

definition authHeaders :: "string option \<Rightarrow> headers option" where
  "authHeaders tok =
     (case tok of
        None \<Rightarrow> None
      | Some t \<Rightarrow> if t \<noteq> [] then Some [(''Authorization'', ''Bearer '' @ t)] else None)"

definition headers_or_none :: "headers option \<Rightarrow> headers" where
  "headers_or_none h = (case h of None \<Rightarrow> [] | Some hs \<Rightarrow> hs)"

text \<open>\<open>try { data = JSON.parse(text) } catch { data = { raw: text } }\<close>\<close>

definition parse_or_raw :: "response \<Rightarrow> json" where
  "parse_or_raw res = (case res_json res of Some d \<Rightarrow> d | None \<Rightarrow> JObj [(''raw'', JStr (res_text res))])"

text \<open>
  \<open>!res.ok || !data.success\<close>: the right operand is read only when the status is a
  success, and reading it throws when \<open>data\<close> is \<open>null\<close>.
\<close>

definition not_ok_or_not_success :: "response \<Rightarrow> json \<Rightarrow> js_error + bool" where
  "not_ok_or_not_success res data =
     (if \<not> res_ok res then Inr True
      else case get_prop data ''success'' of
             Inl e \<Rightarrow> Inl e
           | Inr v \<Rightarrow> Inr (\<not> truthy_val v))"

text \<open>\<open>throw new Error(data.error || fallback)\<close>\<close>

definition throw_error_or :: "(json \<Rightarrow> string) \<Rightarrow> json \<Rightarrow> string \<Rightarrow> ('a, 'w) step" where
  "throw_error_or str data fallback =
     (case get_prop data ''error'' of
        Inl e \<Rightarrow> throw e
      | Inr v \<Rightarrow> throw (JsError (js_String str (js_or v (Some (JStr fallback)))) None None))"

text \<open>Phase 1: start-upload. It yields the parsed response.\<close>

definition start_request :: "string \<Rightarrow> string option \<Rightarrow> File \<Rightarrow> request" where
  "start_request base tok f =
     \<lparr>req_url = Proxied (base @ ''/api/upload-large''), req_method = ''POST'',
      req_headers = headers_or_none (authHeaders tok),
      req_body = Some (JsonText (obj_lit
        [(''action'', Some (JStr ''start-upload'')),
         (''fileName'', Some (JStr (file_name f))),
         (''contentType'', Some (JStr (if file_type f \<noteq> [] then file_type f else ''application/octet-stream''))),
         (''fileSize'', Some (JNum (real (file_size f))))]))\<rparr>"

definition start_phase ::
  "(json \<Rightarrow> string) \<Rightarrow> 'w fetcher \<Rightarrow> string \<Rightarrow> string option \<Rightarrow> File \<Rightarrow> (json, 'w) step" where
  "start_phase str fetch base tok f =
     andThen (pushLog (arrow_right @ '' POST start-upload'')) (\<lambda>_.
     andThen (do_fetch fetch (start_request base tok f)) (\<lambda>startRes.
     andThen (pushLog (arrow_left @ '' start-upload response'')) (\<lambda>_.
     andThen (lift (not_ok_or_not_success startRes (parse_or_raw startRes))) (\<lambda>failed.
       if failed then throw_error_or str (parse_or_raw startRes) ''Failed to start upload''
       else andThen (pushLog ''start-upload ok'') (\<lambda>_. ret (parse_or_raw startRes))))))"

text \<open>Phase 2: get-upload-urls, with \<open>parts = Math.ceil(f.size / CHUNK_SIZE)\<close>.\<close>

definition parts_of :: "File \<Rightarrow> nat" where
  "parts_of f = nat \<lceil>real (file_size f) / real CHUNK_SIZE\<rceil>"

definition urls_request :: "string \<Rightarrow> string option \<Rightarrow> jsval \<Rightarrow> jsval \<Rightarrow> nat \<Rightarrow> request" where
  "urls_request base tok key uploadId parts =
     \<lparr>req_url = Proxied (base @ ''/api/upload-large''), req_method = ''POST'',
      req_headers = headers_or_none (authHeaders tok),
      req_body = Some (JsonText (obj_lit
        [(''action'', Some (JStr ''get-upload-urls'')),
         (''key'', key),
         (''uploadId'', uploadId),
         (''parts'', Some (JNum (real parts)))]))\<rparr>"

definition urls_phase ::
  "'w fetcher \<Rightarrow> string \<Rightarrow> string option \<Rightarrow> jsval \<Rightarrow> jsval \<Rightarrow> nat \<Rightarrow> (json, 'w) step" where
  "urls_phase fetch base tok key uploadId parts =
     andThen (pushLog (arrow_right @ '' POST get-upload-urls'')) (\<lambda>_.
     andThen (do_fetch fetch (urls_request base tok key uploadId parts)) (\<lambda>urlsRes.
     andThen (pushLog (arrow_left @ '' get-upload-urls response'')) (\<lambda>_.
     andThen (lift (not_ok_or_not_success urlsRes (parse_or_raw urlsRes))) (\<lambda>failed.
       if failed then throw (JsError ''Failed to get upload URLs'' None None)
       else ret (parse_or_raw urlsRes)))))"

text \<open>
  \<open>v[i]\<close> on a value read from a response: \<open>undefined\<close> and \<open>null\<close> throw, an array
  and a string give the element or \<open>undefined\<close> past the end, an object gives its
  property named by the digits of \<open>i\<close>.
\<close>

fun get_index :: "jsval \<Rightarrow> nat \<Rightarrow> js_error + jsval" where
  "get_index None i = Inl (TypeError ''Cannot read properties of undefined'')"
| "get_index (Some JNull) i = Inl (TypeError ''Cannot read properties of null'')"
| "get_index (Some (JArr xs)) i = Inr (if i < length xs then Some (xs ! i) else None)"
| "get_index (Some (JStr s)) i = Inr (if i < length s then Some (JStr [s ! i]) else None)"
| "get_index (Some (JObj fs)) i = Inr (map_of fs (show_nat i))"
| "get_index (Some v) i = Inr None"

text \<open>Phase 3: one turn of the loop over the parts, for the index \<open>i\<close>.\<close>

record PartResult =
  ETag :: string
  PartNumber :: nat

definition put_request :: "string \<Rightarrow> byte list \<Rightarrow> request" where
  "put_request partUrl chunk =
     \<lparr>req_url = Direct partUrl, req_method = ''PUT'', req_headers = [],
      req_body = Some (Bytes chunk)\<rparr>"

definition fallback_etag :: "nat \<Rightarrow> nat \<Rightarrow> string" where
  "fallback_etag i t = [CHR 0x22] @ ''etag-'' @ show_nat (i + 1) @ ''-'' @ show_nat t @ [CHR 0x22]"

definition upload_part ::
  "(json \<Rightarrow> string) \<Rightarrow> ('w \<Rightarrow> nat) \<Rightarrow> 'w fetcher \<Rightarrow> File \<Rightarrow> nat \<Rightarrow> json \<Rightarrow> nat
     \<Rightarrow> (PartResult, 'w) step" where
  "upload_part str now fetch f parts urlsData i =
     andThen (lift (get_prop urlsData ''urls'')) (\<lambda>urls.
     andThen (lift (get_index urls i)) (\<lambda>u.
     andThen (pushLog (arrow_right @ '' PUT part '' @ show_nat (i + 1) @ ''/'' @ show_nat parts)) (\<lambda>_.
     andThen (do_fetch fetch
                (put_request (js_String str u)
                   (slice (file_data f) (i * CHUNK_SIZE) ((i + 1) * CHUNK_SIZE)))) (\<lambda>putRes.
     andThen (pushLog (arrow_left @ '' PUT part '' @ show_nat (i + 1) @ '' response'')) (\<lambda>_.
       if \<not> res_ok putRes then throw (JsError (''Chunk '' @ show_nat (i + 1) @ '' failed'') None None)
       else (\<lambda>s.
         andThen (setProgress (js_round (real (i + 1) / real parts * 80))) (\<lambda>_.
           ret \<lparr>ETag = (case headers_get (res_headers putRes) ''ETag'' of
                          None \<Rightarrow> fallback_etag i (now (world s))
                        | Some e \<Rightarrow> if e \<noteq> [] then e else fallback_etag i (now (world s))),
                PartNumber = i + 1\<rparr>) s))))))"

text \<open>\<open>for (let i = 0; i < parts; i++)\<close>, with \<open>uploadedParts\<close> as the accumulator.\<close>

function upload_parts ::
  "(json \<Rightarrow> string) \<Rightarrow> ('w \<Rightarrow> nat) \<Rightarrow> 'w fetcher \<Rightarrow> File \<Rightarrow> nat \<Rightarrow> json \<Rightarrow> nat
     \<Rightarrow> PartResult list \<Rightarrow> (PartResult list, 'w) step" where
  "upload_parts str now fetch f parts urlsData i uploadedParts s =
     (if i < parts then
        (case upload_part str now fetch f parts urlsData i s of
           (Inl e, s') \<Rightarrow> (Inl e, s')
         | (Inr p, s') \<Rightarrow> upload_parts str now fetch f parts urlsData (Suc i) (uploadedParts @ [p]) s')
      else (Inr uploadedParts, s))"
  by pat_completeness auto
termination
  by (relation "measure (\<lambda>(str, now, fetch, f, parts, urlsData, i, uploadedParts, s). parts - i)") auto

declare upload_parts.simps [simp del]

text \<open>Phase 4: complete-upload.\<close>

definition part_json :: "PartResult \<Rightarrow> json" where
  "part_json p = JObj [(''ETag'', JStr (ETag p)), (''PartNumber'', JNum (real (PartNumber p)))]"

definition complete_request ::
  "string \<Rightarrow> string option \<Rightarrow> File \<Rightarrow> jsval \<Rightarrow> jsval \<Rightarrow> PartResult list \<Rightarrow> request" where
  "complete_request base tok f key uploadId uploadedParts =
     \<lparr>req_url = Proxied (base @ ''/api/upload-large''), req_method = ''POST'',
      req_headers = headers_or_none (authHeaders tok),
      req_body = Some (JsonText (obj_lit
        [(''action'', Some (JStr ''complete-upload'')),
         (''key'', key),
         (''uploadId'', uploadId),
         (''parts'', Some (JArr (map part_json uploadedParts))),
         (''fileName'', Some (JStr (file_name f))),
         (''contentType'', Some (JStr (file_type f))),
         (''fileSize'', Some (JNum (real (file_size f)))),
         (''customParameters'', Some (JArr [])),
         (''selectedActionItemTypes'', Some (JArr [])),
         (''originalContentType'', Some (JStr (file_type f))),
         (''audioCompressionUsed'', Some (JBool False))]))\<rparr>"

definition complete_phase ::
  "(json \<Rightarrow> string) \<Rightarrow> 'w fetcher \<Rightarrow> string \<Rightarrow> string option \<Rightarrow> File \<Rightarrow> jsval \<Rightarrow> jsval
     \<Rightarrow> PartResult list \<Rightarrow> (json, 'w) step" where
  "complete_phase str fetch base tok f key uploadId uploadedParts =
     andThen (pushLog (arrow_right @ '' POST complete-upload'')) (\<lambda>_.
     andThen (do_fetch fetch (complete_request base tok f key uploadId uploadedParts)) (\<lambda>completeRes.
     andThen (pushLog (arrow_left @ '' complete-upload response'')) (\<lambda>_.
     andThen (lift (not_ok_or_not_success completeRes (parse_or_raw completeRes))) (\<lambda>failed.
       if failed then throw_error_or str (parse_or_raw completeRes) ''Failed to complete upload''
       else andThen (setProgress 100) (\<lambda>_. ret (parse_or_raw completeRes))))))"

text \<open>
  Phase 5: the fallback analysis call. \<open>try { ... } catch\<close> hands an error of its body
  to the handler. An assignment \<open>obj.name = v\<close> is made on \<open>completeData\<close> only, which is
  an object where the code assigns; on anything else the model throws.
\<close>

definition try_catch :: "('a, 'w) step \<Rightarrow> (js_error \<Rightarrow> ('a, 'w) step) \<Rightarrow> ('a, 'w) step" where
  "try_catch m h s = (case m s of (Inl e, s') \<Rightarrow> h e s' | (Inr x, s') \<Rightarrow> (Inr x, s'))"

fun set_prop :: "json \<Rightarrow> string \<Rightarrow> json \<Rightarrow> js_error + json" where
  "set_prop (JObj fs) k v = Inr (JObj (obj_set k v fs))"
| "set_prop d k v = Inl (TypeError ''Cannot set properties'')"

definition analyze_request :: "string \<Rightarrow> string option \<Rightarrow> jsval \<Rightarrow> request" where
  "analyze_request base tok upload_id =
     \<lparr>req_url = Proxied (base @ ''/api/analyze''), req_method = ''POST'',
      req_headers = obj_spread (headers_or_none (authHeaders tok)) [(''Content-Type'', ''application/json'')],
      req_body = Some (JsonText (obj_lit
        [(''uploadIds'', Some (JArr (case upload_id of None \<Rightarrow> [JNull] | Some v \<Rightarrow> [v]))),
         (''analysisType'', Some (JStr ''parameters'')),
         (''customParameters'', Some (JArr [])),
         (''selectedActionItemTypes'', Some (JArr []))]))\<rparr>"

definition fallback_phase ::
  "'w fetcher \<Rightarrow> string \<Rightarrow> string option \<Rightarrow> json \<Rightarrow> (json, 'w) step" where
  "fallback_phase fetch base tok completeData =
     andThen (lift (get_prop completeData ''analysisStarted'')) (\<lambda>analysisStarted.
       if \<not> truthy_val analysisStarted
          \<and> truthy_val (opt_prop (opt_prop (Some completeData) ''upload'') ''id'')
       then
         try_catch
           (andThen (pushLog (arrow_right @ '' POST analyze (fallback)'')) (\<lambda>_.
            andThen (do_fetch fetch
                       (analyze_request base tok (opt_prop (opt_prop (Some completeData) ''upload'') ''id''))) (\<lambda>analyzeRes.
            andThen (pushLog (arrow_left @ '' analyze response'')) (\<lambda>_.
              if res_ok analyzeRes \<and> truthy_val (opt_prop (Some (parse_or_raw analyzeRes)) ''success'')
              then
                andThen (lift (set_prop completeData ''analysisStarted'' (JBool True))) (\<lambda>d1.
                andThen (lift (get_prop (parse_or_raw analyzeRes) ''analyses'')) (\<lambda>analyses.
                andThen (lift (set_prop d1 ''analyses''
                                 (case js_or analyses (Some (JArr [])) of None \<Rightarrow> JArr [] | Some a \<Rightarrow> a))) (\<lambda>d2.
                  lift (set_prop d2 ''message''
                          (JStr ''File uploaded and analysis started (fallback trigger).'')))))
              else ret completeData))))
           (\<lambda>fallbackErr. andThen (pushLog ''Fallback analyze trigger failed'') (\<lambda>_. ret completeData))
       else ret completeData)"

text \<open>The whole sequence for one file.\<close>

definition startSimpleMultipart ::
  "(json \<Rightarrow> string) \<Rightarrow> ('w \<Rightarrow> nat) \<Rightarrow> 'w fetcher \<Rightarrow> string \<Rightarrow> string option \<Rightarrow> File
     \<Rightarrow> (json, 'w) step" where
  "startSimpleMultipart str now fetch domain tok f =
     andThen (pushLog ''Begin upload'') (\<lambda>_.
     andThen (start_phase str fetch (strip_trailing_slash domain) tok f) (\<lambda>startData.
     andThen (urls_phase fetch (strip_trailing_slash domain) tok
                (opt_prop (Some startData) ''key'') (opt_prop (Some startData) ''uploadId'')
                (parts_of f)) (\<lambda>urlsData.
     andThen (upload_parts str now fetch f (parts_of f) urlsData 0 []) (\<lambda>uploadedParts.
     andThen (complete_phase str fetch (strip_trailing_slash domain) tok f
                (opt_prop (Some startData) ''key'') (opt_prop (Some startData) ''uploadId'')
                uploadedParts) (\<lambda>completeData.
       fallback_phase fetch (strip_trailing_slash domain) tok completeData)))))"

text \<open>Reading a run: the requests among its events, and a state with no events yet.\<close>

fun requests_of :: "event list \<Rightarrow> request list" where
  "requests_of [] = []"
| "requests_of (Fetched r # es) = r # requests_of es"
| "requests_of (e # es) = requests_of es"

definition is_put :: "request \<Rightarrow> bool" where
  "is_put p = (req_method p = ''PUT'' \<and> (case req_body p of Some (Bytes c) \<Rightarrow> True | _ \<Rightarrow> False))"

definition fresh :: "'w \<Rightarrow> 'w run" where
  "fresh w = \<lparr>world = w, events = []\<rparr>"

text \<open>A property of the JSON object a request carries as its body.\<close>

definition body_field :: "request \<Rightarrow> string \<Rightarrow> jsval" where
  "body_field req k = (case req_body req of Some (JsonText (JObj fs)) \<Rightarrow> map_of fs k | _ \<Rightarrow> None)"

section \<open>Forwarding proxy (vite.config.ts)\<close>

text \<open>
  The request the middleware receives: the \<open>url\<close> query parameter
  (\<open>url.searchParams.get('url')\<close>, \<open>None\<close> when it is missing), the method, the headers
  as Node gives them (a value is a string, or an array of strings) and the chunks of the
  body, or the error of the stream.
\<close>

datatype hval = Single string | Multi "string list"

record incoming =
  in_target :: "string option"
  in_method :: "string option"
  in_headers :: "(string \<times> hval) list"
  in_body :: "js_error + byte list list"

text \<open>What the proxy sends upstream and what it gets back.\<close>

record up_request =
  ur_url :: string
  ur_method :: string
  ur_headers :: headers
  ur_body :: "byte list option"

text \<open>\<open>up_body\<close> is the result of \<open>response.arrayBuffer()\<close>.\<close>

record up_response =
  up_status :: nat
  up_headers :: headers
  up_body :: "js_error + byte list"

type_synonym 'w upstream = "'w \<Rightarrow> up_request \<Rightarrow> (js_error + up_response) \<times> 'w"

text \<open>The reply to the caller: \<open>res.statusCode\<close>, the headers set and what \<open>res.end\<close> got.\<close>

datatype reply_body = NoBody | TextBody string | RawBody "byte list"

record reply =
  statusCode :: nat
  headers_sent :: headers
  body_sent :: reply_body

definition reply_init :: reply where
  "reply_init = \<lparr>statusCode = 200, headers_sent = [], body_sent = NoBody\<rparr>"

text \<open>\<open>res.setHeader\<close>: a header set again, in any case of its name, replaces the earlier one.\<close>

definition setHeader :: "string \<Rightarrow> string \<Rightarrow> reply \<Rightarrow> reply" where
  "setHeader k v r =
     r\<lparr>headers_sent := filter (\<lambda>(k', v'). toLowerCase k' \<noteq> toLowerCase k) (headers_sent r) @ [(k, v)]\<rparr>"

definition end_with :: "nat \<Rightarrow> string \<Rightarrow> reply \<Rightarrow> reply" where
  "end_with code text r = r\<lparr>statusCode := code, body_sent := TextBody text\<rparr>"

text \<open>\<open>s.trim()\<close> on ASCII white space, and \<open>xs.join(sep)\<close>.\<close>

definition is_space :: "char \<Rightarrow> bool" where
  "is_space c = (c \<in> set [CHR 0x20, CHR 0x09, CHR 0x0A, CHR 0x0B, CHR 0x0C, CHR 0x0D])"

definition js_trim :: "string \<Rightarrow> string" where
  "js_trim s = rev (dropWhile is_space (rev (dropWhile is_space s)))"

fun js_join :: "string \<Rightarrow> string list \<Rightarrow> string" where
  "js_join sep [] = []"
| "js_join sep [x] = x"
| "js_join sep (x # y # ys) = x @ sep @ js_join sep (y # ys)"

text \<open>\<open>/^https?:\/\//i.test(target)\<close>\<close>

definition is_http_url :: "string \<Rightarrow> bool" where
  "is_http_url t = (toLowerCase (take 7 t) = ''http://'' \<or> toLowerCase (take 8 t) = ''https://'')"

definition hopByHop :: "string list" where
  "hopByHop =
     [''host'', ''connection'', ''keep-alive'', ''proxy-authenticate'', ''proxy-authorization'',
      ''te'', ''trailer'', ''transfer-encoding'', ''upgrade'', ''accept-encoding'', ''origin'',
      ''referer'']"

text \<open>The loop over \<open>Object.entries(req.headers)\<close> that fills \<open>fwdHeaders\<close>.\<close>

fun hval_truthy :: "hval \<Rightarrow> bool" where
  "hval_truthy (Single s) = (s \<noteq> [])"
| "hval_truthy (Multi xs) = True"

fun hval_string :: "hval \<Rightarrow> string" where
  "hval_string (Single s) = s"
| "hval_string (Multi xs) = js_join '', '' xs"

definition fwd_step :: "string \<times> hval \<Rightarrow> headers \<Rightarrow> headers" where
  "fwd_step kv fwdHeaders =
     (case kv of (k, v) \<Rightarrow>
        if \<not> hval_truthy v then fwdHeaders
        else if toLowerCase k \<in> set hopByHop then fwdHeaders
        else obj_set (toLowerCase k) (hval_string v) fwdHeaders)"

definition fwdHeaders_of :: "(string \<times> hval) list \<Rightarrow> headers" where
  "fwdHeaders_of hs = obj_set ''accept-encoding'' ''identity'' (fold fwd_step hs [])"

text \<open>
  The state of the redirect loop: the four \<open>current\<close> variables and \<open>response\<close>, with
  the exchanges made so far, the lines given to \<open>console.warn\<close> and \<open>console.error\<close> by
  the loop (without the correlation prefix) and the state of the network.
\<close>

record 'w pstate =
  currentUrl :: string
  currentMethod :: string
  currentHeaders :: headers
  currentBody :: "byte list option"
  response :: "up_response option"
  exchanges :: "(up_request \<times> (js_error + up_response)) list"
  console :: "string list"
  upworld :: 'w

definition maxRedirects :: nat where
  "maxRedirects = 5"

definition request_of :: "'w pstate \<Rightarrow> up_request" where
  "request_of st =
     \<lparr>ur_url = currentUrl st, ur_method = currentMethod st, ur_headers = currentHeaders st,
      ur_body = currentBody st\<rparr>"

text \<open>\<open>if (status === 301 || status === 302 || status === 303) { ... }\<close>\<close>

definition downgrade :: "'w pstate \<Rightarrow> 'w pstate" where
  "downgrade st =
     st\<lparr>currentMethod := ''GET'', currentBody := None,
        currentHeaders :=
          (let h = obj_delete ''content-length'' (currentHeaders st)
           in case map_of h ''content-type'' of
                None \<Rightarrow> h
              | Some v \<Rightarrow> if v \<noteq> [] then obj_delete ''content-type'' h else h)\<rparr>"

datatype loop_ctl = Continue | Break

text \<open>
  One turn of the loop for the counter \<open>i\<close>. \<open>resolve location base\<close> is
  \<open>new URL(location, base).toString()\<close>, \<open>None\<close> when it throws.
\<close>

definition loop_body ::
  "(string \<Rightarrow> string \<Rightarrow> string option) \<Rightarrow> 'w upstream \<Rightarrow> nat \<Rightarrow> 'w pstate
     \<Rightarrow> (js_error + loop_ctl) \<times> 'w pstate" where
  "loop_body resolve up i st =
     (case up (upworld st) (request_of st) of
        (Inl e, w') \<Rightarrow>
          (Inl e, st\<lparr>upworld := w', exchanges := exchanges st @ [(request_of st, Inl e)]\<rparr>)
      | (Inr r, w') \<Rightarrow>
          (let st1 = st\<lparr>upworld := w', exchanges := exchanges st @ [(request_of st, Inr r)],
                        response := Some r\<rparr>
           in case headers_get (up_headers r) ''location'' of
                None \<Rightarrow> (Inr Break, st1)
              | Some location \<Rightarrow>
                  if 300 \<le> up_status r \<and> up_status r < 400 \<and> location \<noteq> [] then
                    (let st2 = st1\<lparr>console := console st1 @
                                    [''<- '' @ show_nat (up_status r) @ '' redirect to: '' @ location]\<rparr>
                     in case resolve location (currentUrl st2) of
                          None \<Rightarrow> (Inl (TypeError ''Invalid URL''), st2)
                        | Some nextUrl \<Rightarrow>
                            (let st3 = (if up_status r = 301 \<or> up_status r = 302 \<or> up_status r = 303
                                        then downgrade st2 else st2)\<lparr>currentUrl := nextUrl\<rparr>
                             in if i = maxRedirects
                                then (Inr Break, st3\<lparr>console := console st3 @ [''Too many redirects'']\<rparr>)
                                else (Inr Continue, st3)))
                  else (Inr Break, st1)))"

text \<open>\<open>for (let i = 0; i <= maxRedirects; i++)\<close>\<close>

function follow ::
  "(string \<Rightarrow> string \<Rightarrow> string option) \<Rightarrow> 'w upstream \<Rightarrow> nat \<Rightarrow> 'w pstate
     \<Rightarrow> (js_error + unit) \<times> 'w pstate" where
  "follow resolve up i st =
     (if i \<le> maxRedirects then
        (case loop_body resolve up i st of
           (Inl e, st') \<Rightarrow> (Inl e, st')
         | (Inr Continue, st') \<Rightarrow> follow resolve up (Suc i) st'
         | (Inr Break, st') \<Rightarrow> (Inr (), st'))
      else (Inr (), st))"
  by pat_completeness auto
termination
  by (relation "measure (\<lambda>(resolve, up, i, st). Suc maxRedirects - i)") auto

declare follow.simps [simp del]

text \<open>Copying the final response back; reading its body may throw.\<close>

definition copy_header :: "string \<times> string \<Rightarrow> reply \<Rightarrow> reply" where
  "copy_header kv r =
     (case kv of (key, v) \<Rightarrow>
        if toLowerCase key \<in> set [''transfer-encoding'', ''content-encoding'', ''content-length'']
        then r else setHeader key v r)"

definition relay :: "up_response option \<Rightarrow> reply \<Rightarrow> (js_error + unit) \<times> reply" where
  "relay resp r =
     (case resp of
        None \<Rightarrow> (Inl (JsError ''No response from upstream'' None None), r)
      | Some rs \<Rightarrow>
          (let r1 = fold copy_header (up_headers rs) (r\<lparr>statusCode := up_status rs\<rparr>)
           in if up_status rs = 204 \<or> up_status rs = 304 then (Inr (), r1\<lparr>body_sent := NoBody\<rparr>)
              else case up_body rs of
                     Inl e \<Rightarrow> (Inl e, r1)
                   | Inr buf \<Rightarrow>
                       (Inr (), (setHeader ''Content-Length'' (show_nat (length buf)) r1)
                                  \<lparr>body_sent := RawBody buf\<rparr>)))"

text \<open>The \<open>catch\<close> of the middleware.\<close>

definition on_error :: "js_error \<Rightarrow> reply \<Rightarrow> reply" where
  "on_error e r =
     (setHeader ''Content-Type'' ''text/plain; charset=utf-8'' (r\<lparr>statusCode := 502\<rparr>))
       \<lparr>body_sent := TextBody (''Proxy error: '' @ (if message e \<noteq> [] then message e else ''unknown''))\<rparr>"

text \<open>
  The result of the middleware: the reply, and the exchanges, console lines and network
  state the loop left behind.
\<close>

record 'w outcome =
  out_reply :: reply
  out_exchanges :: "(up_request \<times> (js_error + up_response)) list"
  out_console :: "string list"
  out_world :: 'w

definition early :: "reply \<Rightarrow> 'w \<Rightarrow> 'w outcome" where
  "early r w = \<lparr>out_reply = r, out_exchanges = [], out_console = [], out_world = w\<rparr>"

text \<open>The loop from the first request, then the relay, inside the \<open>try\<close>.\<close>

definition finish ::
  "(string \<Rightarrow> string \<Rightarrow> string option) \<Rightarrow> 'w upstream \<Rightarrow> string \<Rightarrow> string \<Rightarrow> headers
     \<Rightarrow> byte list option \<Rightarrow> 'w \<Rightarrow> 'w outcome" where
  "finish resolve up target method fwdHeaders body w =
     (case follow resolve up 0
             \<lparr>currentUrl = target, currentMethod = method, currentHeaders = fwdHeaders,
              currentBody = body, response = None, exchanges = [], console = [], upworld = w\<rparr> of
        (Inl e, st) \<Rightarrow>
          \<lparr>out_reply = on_error e reply_init, out_exchanges = exchanges st,
           out_console = console st, out_world = upworld st\<rparr>
      | (Inr u, st) \<Rightarrow>
          (case relay (response st) reply_init of
             (Inl e, r) \<Rightarrow>
               \<lparr>out_reply = on_error e r, out_exchanges = exchanges st,
                out_console = console st, out_world = upworld st\<rparr>
           | (Inr u', r) \<Rightarrow>
               \<lparr>out_reply = r, out_exchanges = exchanges st,
                out_console = console st, out_world = upworld st\<rparr>))"

text \<open>
  From the method on: the headers to forward, the body, the loop and the relay.
  \<open>Buffer.concat\<close> of no chunks is not made: the body stays \<open>undefined\<close>; an empty buffer
  is truthy, so it gets its \<open>content-length\<close>.
\<close>

definition forward ::
  "(string \<Rightarrow> string \<Rightarrow> string option) \<Rightarrow> 'w upstream \<Rightarrow> string \<Rightarrow> incoming \<Rightarrow> 'w \<Rightarrow> 'w outcome" where
  "forward resolve up target req w =
     (let method = toUpperCase (case in_method req of None \<Rightarrow> ''GET''
                                | Some m \<Rightarrow> if m \<noteq> [] then m else ''GET'');
          fwdHeaders = fwdHeaders_of (in_headers req)
      in if method \<in> set [''GET'', ''HEAD'']
         then finish resolve up target method fwdHeaders None w
         else case in_body req of
                Inl e \<Rightarrow> early (on_error e reply_init) w
              | Inr chunks \<Rightarrow>
                  if chunks \<noteq> []
                  then finish resolve up target method
                         (obj_set ''content-length'' (show_nat (length (concat chunks))) fwdHeaders)
                         (Some (concat chunks)) w
                  else finish resolve up target method fwdHeaders None w)"

text \<open>
  The middleware. \<open>origin u\<close> is \<open>new URL(u).origin\<close>, \<open>None\<close> when the constructor
  throws. The \<open>x-target-base\<close> header is read first: \<open>.trim()\<close> on an array throws.
\<close>

definition target_base :: "incoming \<Rightarrow> js_error + string option" where
  "target_base req =
     (case map_of (in_headers req) ''x-target-base'' of
        None \<Rightarrow> Inr None
      | Some (Single s) \<Rightarrow> Inr (Some (js_trim s))
      | Some (Multi xs) \<Rightarrow> Inl (TypeError ''trim is not a function''))"

definition check_base :: "(string \<Rightarrow> string option) \<Rightarrow> string \<Rightarrow> string option \<Rightarrow> reply option" where
  "check_base origin target base =
     (case base of
        None \<Rightarrow> None
      | Some b \<Rightarrow>
          if b = [] then None
          else (case origin target of
                  None \<Rightarrow> Some (end_with 400 ''Invalid X-Target-Base'' reply_init)
                | Some targetOrigin \<Rightarrow>
                    (case origin b of
                       None \<Rightarrow> Some (end_with 400 ''Invalid X-Target-Base'' reply_init)
                     | Some baseOrigin \<Rightarrow>
                         if targetOrigin \<noteq> baseOrigin
                         then Some (end_with 403 ''Target not allowed for provided X-Target-Base'' reply_init)
                         else None)))"

definition proxy ::
  "(string \<Rightarrow> string option) \<Rightarrow> (string \<Rightarrow> string \<Rightarrow> string option) \<Rightarrow> 'w upstream \<Rightarrow> incoming
     \<Rightarrow> 'w \<Rightarrow> 'w outcome" where
  "proxy origin resolve up req w =
     (case target_base req of
        Inl e \<Rightarrow> early (on_error e reply_init) w
      | Inr base \<Rightarrow>
          (case in_target req of
             None \<Rightarrow> early (end_with 400 ''Missing url param'' reply_init) w
           | Some target \<Rightarrow>
               if target = [] then early (end_with 400 ''Missing url param'' reply_init) w
               else if \<not> is_http_url target then early (end_with 400 ''Invalid target url'' reply_init) w
               else (case check_base origin target base of
                       Some r \<Rightarrow> early r w
                     | None \<Rightarrow> forward resolve up target req w)))"

text \<open>
  Reading a run of the proxy: the state the loop starts from, a response that the loop
  treats as a redirect to follow, and the rule that links an exchange to the next one.
\<close>

definition init_state :: "string \<Rightarrow> string \<Rightarrow> headers \<Rightarrow> byte list option \<Rightarrow> 'w \<Rightarrow> 'w pstate" where
  "init_state target method h body w =
     \<lparr>currentUrl = target, currentMethod = method, currentHeaders = h,
      currentBody = body, response = None, exchanges = [], console = [], upworld = w\<rparr>"

definition is_redirect :: "(string \<Rightarrow> string \<Rightarrow> string option) \<Rightarrow> up_request \<Rightarrow> up_response \<Rightarrow> bool" where
  "is_redirect resolve rq rs =
     (300 \<le> up_status rs \<and> up_status rs < 400
      \<and> (case headers_get (up_headers rs) ''location'' of
            None \<Rightarrow> False
          | Some location \<Rightarrow> location \<noteq> [] \<and> resolve location (ur_url rq) \<noteq> None))"

definition hdr_inv :: "headers \<Rightarrow> bool" where
  "hdr_inv h = ((\<forall>(k, v) \<in> set h. toLowerCase k = k)
               \<and> (\<forall>v. map_of h ''content-type'' = Some v \<longrightarrow> v \<noteq> []))"

definition follows_rule ::
  "up_request \<times> (js_error + up_response) \<Rightarrow> up_request \<times> (js_error + up_response) \<Rightarrow> bool" where
  "follows_rule a b =
     (case snd a of
        Inl e \<Rightarrow> True
      | Inr rs \<Rightarrow>
          if up_status rs = 301 \<or> up_status rs = 302 \<or> up_status rs = 303
          then ur_method (fst b) = ''GET'' \<and> ur_body (fst b) = None
               \<and> (\<forall>(k, v) \<in> set (ur_headers (fst b)).
                     toLowerCase k \<noteq> ''content-length'' \<and> toLowerCase k \<noteq> ''content-type'')
          else ur_method (fst b) = ur_method (fst a) \<and> ur_body (fst b) = ur_body (fst a)
               \<and> ur_headers (fst b) = ur_headers (fst a))"

section \<open>Concrete inputs\<close>

definition demo_str :: "json \<Rightarrow> string" where
  "demo_str v = ''[value]''"

definition demo_client :: ApiClient where
  "demo_client = createApiClient ''https://api.example.com/'' (Some ''abc123'')"

definition anon_client :: ApiClient where
  "anon_client = createApiClient ''https://api.example.com/'' None"

definition boom_response :: response where
  "boom_response =
     \<lparr>res_status = 500, res_headers = [],
      res_text = ''{\"success\":false,\"error\":\"Boom\"}'',
      res_json = Some (JObj [(''success'', JBool False), (''error'', JStr ''Boom'')])\<rparr>"

definition boom_fetch :: "request \<Rightarrow> js_error + response" where
  "boom_fetch req = Inr boom_response"

definition html_response :: response where
  "html_response = \<lparr>res_status = 200, res_headers = [], res_text = ''<html>'', res_json = None\<rparr>"

definition html_fetch :: "request \<Rightarrow> js_error + response" where
  "html_fetch req = Inr html_response"

text \<open>
  A JSON response, given by its status and its parsed body. Its text is left empty: the
  code reads the text only where parsing has failed.
\<close>

definition json_response :: "nat \<Rightarrow> json \<Rightarrow> response" where
  "json_response code d = \<lparr>res_status = code, res_headers = [(''content-type'', ''application/json'')],
      res_text = [], res_json = Some d\<rparr>"

definition put_response :: response where
  "put_response = \<lparr>res_status = 200, res_headers = [(''etag'', ''tag-a'')], res_text = [], res_json = None\<rparr>"

text \<open>A server that answers every call with success; it hands out two URLs whatever \<open>parts\<close> is.\<close>

definition demo_server :: "json \<Rightarrow> request \<Rightarrow> js_error + response" where
  "demo_server completion req =
     (if body_field req ''action'' = Some (JStr ''start-upload'')
      then Inr (json_response 200 (JObj [(''success'', JBool True), (''uploadId'', JStr ''u1''), (''key'', JStr ''k1'')]))
      else if body_field req ''action'' = Some (JStr ''get-upload-urls'')
      then Inr (json_response 200 (JObj [(''success'', JBool True),
                  (''urls'', JArr [JStr ''https://s3.example.com/p1'', JStr ''https://s3.example.com/p2''])]))
      else if body_field req ''action'' = Some (JStr ''complete-upload'')
      then Inr (json_response 200 completion)
      else if req_method req = ''PUT'' then Inr put_response
      else Inl (TypeError ''Failed to fetch''))"

definition demo_fetch :: "json \<Rightarrow> unit fetcher" where
  "demo_fetch completion w req = (demo_server completion req, w)"

definition demo_now :: "unit \<Rightarrow> nat" where
  "demo_now w = 1700000000000"

definition tiny_file :: File where
  "tiny_file = \<lparr>file_name = ''a.mp3'', file_type = ''audio/mpeg'', file_data = [1, 2, 3]\<rparr>"

definition big_file :: File where
  "big_file = \<lparr>file_name = ''b.mp3'', file_type = ''audio/mpeg'',
     file_data = replicate (5 * 1024 * 1024 + 1) 0\<rparr>"

definition completion_started :: json where
  "completion_started = JObj [(''success'', JBool True), (''analysisStarted'', JBool True),
     (''upload'', JObj [(''id'', JStr ''up1'')])]"


definition demo_origin :: "string \<Rightarrow> string option" where
  "demo_origin u =
     (if is_http_url u
      then Some (takeWhile (\<lambda>c. c \<noteq> CHR ''/'') u @ ''//'' @
                 takeWhile (\<lambda>c. c \<noteq> CHR ''/'') (drop 2 (dropWhile (\<lambda>c. c \<noteq> CHR ''/'') u)))
      else None)"

definition demo_resolve :: "string \<Rightarrow> string \<Rightarrow> string option" where
  "demo_resolve location base = (if is_http_url location then Some location else None)"

definition redirect_response :: "nat \<Rightarrow> up_response" where
  "redirect_response code =
     \<lparr>up_status = code, up_headers = [(''location'', ''https://b.example.com/next'')], up_body = Inr []\<rparr>"

definition ok_response :: up_response where
  "ok_response = \<lparr>up_status = 200, up_headers = [(''content-type'', ''application/json'')],
     up_body = Inr [0x7B, 0x7D]\<rparr>"

text \<open>An upstream that answers every request with a redirect.\<close>

definition always_redirect :: "nat \<Rightarrow> nat upstream" where
  "always_redirect code n rq = (Inr (redirect_response code), Suc n)"

text \<open>An upstream that redirects once and then answers.\<close>

definition redirect_once :: "nat \<Rightarrow> nat upstream" where
  "redirect_once code n rq = (if n = 0 then Inr (redirect_response code) else Inr ok_response, Suc n)"

definition post_request :: incoming where
  "post_request =
     \<lparr>in_target = Some ''https://a.example.com/api/upload-large'', in_method = Some ''POST'',
      in_headers = [(''host'', Single ''localhost:5173''),
                    (''content-type'', Single ''text/plain;charset=UTF-8''),
                    (''authorization'', Single ''Bearer abc123'')],
      in_body = Inr [[1, 2, 3]]\<rparr>"

section \<open>Properties of the validator\<close>

text \<open>
  C3. For every file name, size and MIME type, \<open>validateAudioFile\<close> answers
  \<open>valid = true\<close> exactly when the size is at most 5 MiB (5 * 1024 * 1024 bytes) and the
  type is in the allow-list; a size above 5 MiB gives \<open>valid = false\<close> with the message
  \<open>File exceeds 5MB limit\<close> whatever the type; a size of at most 5 MiB with a type outside
  the list gives \<open>valid = false\<close> with the message \<open>Unsupported file type\<close>.
\<close>

theorem validate_spec:
  "valid (validateAudioFile name sz ty) = (sz \<le> 5 * 1024 * 1024 \<and> ty \<in> set ACCEPTED_TYPES)
   \<and> (sz > 5 * 1024 * 1024 \<longrightarrow>
        validateAudioFile name sz ty = \<lparr>valid = False, error = Some ''File exceeds 5MB limit''\<rparr>)
   \<and> (sz \<le> 5 * 1024 * 1024 \<and> ty \<notin> set ACCEPTED_TYPES \<longrightarrow>
        validateAudioFile name sz ty = \<lparr>valid = False, error = Some ''Unsupported file type''\<rparr>)"
  by (simp add: validateAudioFile_def MAX_SIZE_BYTES_def)

theorem validate_spec_witness:
  "valid (validateAudioFile ''test.mp3'' 1024 ''audio/mpeg'')
   \<and> validateAudioFile ''big.mp3'' (5 * 1024 * 1024 + 1) ''audio/mpeg''
       = \<lparr>valid = False, error = Some ''File exceeds 5MB limit''\<rparr>
   \<and> validateAudioFile ''test.txt'' 1000 ''text/plain''
       = \<lparr>valid = False, error = Some ''Unsupported file type''\<rparr>"
  using validate_spec [where name = "''test.mp3''" and sz = 1024 and ty = "''audio/mpeg''"]
        validate_spec [where name = "''big.mp3''" and sz = "5 * 1024 * 1024 + 1" and ty = "''audio/mpeg''"]
        validate_spec [where name = "''test.txt''" and sz = 1000 and ty = "''text/plain''"]
  by (simp add: ACCEPTED_TYPES_def)

section \<open>Properties of the session client\<close>

text \<open>
  C4. The request \<open>postJson\<close> hands to \<open>fetch\<close>: when no token is set (the token is
  \<open>undefined\<close>, \<open>null\<close> or the empty string, which \<open>if (this.token)\<close> treats alike), no
  header of the request is named \<open>Authorization\<close> in any case of the letters; when a
  token \<open>t\<close> is set, the header \<open>Authorization\<close> is \<open>Bearer t\<close> exactly, and it is the only
  header of that name.
\<close>

theorem postJson_authorization:
  "(token c = None \<or> token c = Some [] \<longrightarrow>
      (\<forall>(k, v) \<in> set (req_headers (postJson_request c path body force)). toLowerCase k \<noteq> ''authorization''))
   \<and> (token c = Some t \<and> t \<noteq> [] \<longrightarrow>
      map_of (req_headers (postJson_request c path body force)) ''Authorization'' = Some (''Bearer '' @ t)
      \<and> length (filter (\<lambda>(k, v). toLowerCase k = ''authorization'')
                  (req_headers (postJson_request c path body force))) = 1)"
  by (auto simp: postJson_request_def buildHeaders_def obj_spread_def obj_set_def
        toLowerCase_def letter_index_def)

theorem postJson_authorization_witness:
  "req_headers (postJson_request anon_client ''/api/x'' JNull False) = []
   \<and> req_headers (postJson_request demo_client ''/api/x'' JNull True)
       = [(''Authorization'', ''Bearer abc123''), (''Content-Type'', ''application/json'')]"
  using postJson_authorization [where c = anon_client and path = "''/api/x''" and body = JNull and force = False]
        postJson_authorization [where c = demo_client and t = "''abc123''" and path = "''/api/x''" and body = JNull and force = True]
  by (simp add: anon_client_def demo_client_def createApiClient_def ApiClient_new_def
        postJson_request_def buildHeaders_def obj_spread_def obj_set_def)

text \<open>
  C5. When \<open>fetch\<close> resolves with a response, \<open>postJson\<close> throws exactly when the status
  is outside 200..299 or the parsed body is an object whose \<open>success\<close> is \<open>false\<close>. The
  error carries the status and the parsed body (\<open>null\<close> when the body did not parse), and
  its message is the body's \<open>error\<close> when that is truthy, else the body's \<open>message\<close> when
  that is truthy, else \<open>Request failed (status)\<close>. Otherwise \<open>postJson\<close> returns the
  parsed body. For status 500 and the body \<open>{success: false, error: "Boom"}\<close> the message
  is \<open>Boom\<close>.
\<close>

theorem postJson_failure:
  assumes "fetch (postJson_request c path body force) = Inr res"
  shows "postJson str fetch c path body force =
     (if \<not> (200 \<le> res_status res \<and> res_status res \<le> 299)
         \<or> (\<exists>fs. res_json res = Some (JObj fs) \<and> map_of fs ''success'' = Some (JBool False))
      then Inl (JsError
                  (case res_json res of
                     Some (JObj fs) \<Rightarrow>
                       if truthy_val (map_of fs ''error'') then js_String str (map_of fs ''error'')
                       else if truthy_val (map_of fs ''message'') then js_String str (map_of fs ''message'')
                       else ''Request failed ('' @ show_nat (res_status res) @ '')''
                   | _ \<Rightarrow> ''Request failed ('' @ show_nat (res_status res) @ '')'')
                  (Some (res_status res))
                  (Some (case res_json res of None \<Rightarrow> JNull | Some d \<Rightarrow> d)))
      else Inr (case res_json res of None \<Rightarrow> JNull | Some d \<Rightarrow> d))"
proof (cases "res_json res")
  case None
  with assms show ?thesis
    by (simp add: postJson_def res_ok_def js_or_def)
next
  case (Some d)
  with assms show ?thesis
    by (cases d) (auto simp: postJson_def res_ok_def js_or_def Let_def)
qed

theorem postJson_failure_witness:
  "postJson demo_str boom_fetch demo_client ''/api/x'' JNull False
     = Inl (JsError ''Boom'' (Some 500) (Some (JObj [(''success'', JBool False), (''error'', JStr ''Boom'')])))"
proof -
  have h: "boom_fetch (postJson_request demo_client ''/api/x'' JNull False) = Inr boom_response"
    by (simp add: boom_fetch_def)
  from postJson_failure [where fetch = boom_fetch and str = demo_str, OF h] show ?thesis
    by (simp add: boom_response_def)
qed

text \<open>
  C10. When \<open>fetch\<close> resolves with a status in 200..299 and the body does not parse as
  JSON, \<open>postJson\<close> returns \<open>null\<close> and throws nothing. It checks no field of a parsed
  body either: any parsed body that is not an object with \<open>success: false\<close> is returned
  as it is.
\<close>

theorem postJson_unparsed_ok:
  assumes "fetch (postJson_request c path body force) = Inr res"
    and "200 \<le> res_status res" and "res_status res \<le> 299"
  shows "(res_json res = None \<longrightarrow> postJson str fetch c path body force = Inr JNull)
       \<and> (\<forall>d. res_json res = Some d
              \<and> \<not> (\<exists>fs. d = JObj fs \<and> map_of fs ''success'' = Some (JBool False))
            \<longrightarrow> postJson str fetch c path body force = Inr d)"
proof (intro conjI allI impI)
  assume "res_json res = None"
  with assms show "postJson str fetch c path body force = Inr JNull"
    by (simp add: postJson_def res_ok_def)
next
  fix d
  assume "res_json res = Some d \<and> \<not> (\<exists>fs. d = JObj fs \<and> map_of fs ''success'' = Some (JBool False))"
  with assms show "postJson str fetch c path body force = Inr d"
    by (cases d) (auto simp: postJson_def res_ok_def)
qed

theorem postJson_unparsed_ok_witness:
  "postJson demo_str html_fetch demo_client ''/api/x'' JNull False = Inr JNull"
proof -
  have h: "html_fetch (postJson_request demo_client ''/api/x'' JNull False) = Inr html_response"
    by (simp add: html_fetch_def)
  have lo: "200 \<le> res_status html_response" and hi: "res_status html_response \<le> 299"
    by (simp_all add: html_response_def)
  from postJson_unparsed_ok [where fetch = html_fetch and str = demo_str, OF h lo hi] show ?thesis
    by (simp add: html_response_def)
qed

section \<open>Properties of the upload orchestrator\<close>

lemma requests_of_append [simp]: "requests_of (xs @ ys) = requests_of xs @ requests_of ys"
  by (induction xs rule: requests_of.induct) auto

lemmas step_defs = andThen_def ret_def throw_def lift_def pushLog_def setProgress_def do_fetch_def
  try_catch_def throw_error_or_def

lemma start_phase_requests:
  "start_phase str fetch base tok f s = (r, s') \<Longrightarrow>
     requests_of (events s') = requests_of (events s) @ [start_request base tok f]"
  by (auto simp: start_phase_def step_defs split: prod.splits sum.splits if_splits)

lemma urls_phase_requests:
  "urls_phase fetch base tok key uploadId parts s = (r, s') \<Longrightarrow>
     requests_of (events s') = requests_of (events s) @ [urls_request base tok key uploadId parts]"
  by (auto simp: urls_phase_def step_defs split: prod.splits sum.splits if_splits)

lemma is_put_put_request [simp]: "is_put (put_request u c)"
  by (simp add: is_put_def put_request_def)

lemma truthy_val_Some: "truthy_val x \<Longrightarrow> \<exists>v. x = Some v \<and> truthy v"
  by (cases x) auto

lemma upload_part_requests:
  "upload_part str now fetch f parts urlsData i s = (r, s') \<Longrightarrow>
     (\<exists>reqs. requests_of (events s') = requests_of (events s) @ reqs
        \<and> (\<forall>p \<in> set reqs. is_put p)
        \<and> (\<forall>p. r = Inr p \<longrightarrow> PartNumber p = i + 1 \<and> length reqs = 1))"
  by (auto simp: upload_part_def step_defs split: prod.splits sum.splits if_splits)

lemma complete_phase_requests:
  "complete_phase str fetch base tok f key uploadId ps s = (r, s') \<Longrightarrow>
     requests_of (events s') = requests_of (events s) @ [complete_request base tok f key uploadId ps]"
  by (auto simp: complete_phase_def step_defs split: prod.splits sum.splits if_splits)

lemma not_ok_or_not_success_False:
  "not_ok_or_not_success res d = Inr False \<Longrightarrow> \<exists>fs v. d = JObj fs \<and> map_of fs ''success'' = Some v \<and> truthy v"
  by (cases d) (auto simp: not_ok_or_not_success_def split: if_splits sum.splits option.splits
        dest: truthy_val_Some)

lemma complete_phase_ok:
  "complete_phase str fetch base tok f key uploadId ps s = (Inr d, s') \<Longrightarrow>
     \<exists>fs v. d = JObj fs \<and> map_of fs ''success'' = Some v \<and> truthy v"
  by (auto simp: complete_phase_def step_defs split: prod.splits sum.splits if_splits
        dest: not_ok_or_not_success_False)


lemma upload_parts_requests:
  "upload_parts str now fetch f parts urlsData i acc s = (r, s') \<Longrightarrow> i \<le> parts \<Longrightarrow>
     \<exists>reqs. requests_of (events s') = requests_of (events s) @ reqs
        \<and> (\<forall>p \<in> set reqs. is_put p)
        \<and> (\<forall>ps. r = Inr ps \<longrightarrow>
              (\<exists>new. ps = acc @ new \<and> map PartNumber new = [Suc i..<Suc parts])
              \<and> length reqs = parts - i)"
proof (induction str now fetch f parts urlsData i acc s arbitrary: r s' rule: upload_parts.induct)
  case (1 str now fetch f parts urlsData i acc s)
  show ?case
  proof (cases "i < parts")
    case False
    with "1.prems" show ?thesis
      by (auto simp: upload_parts.simps)
  next
    case True
    obtain r1 s1 where step: "upload_part str now fetch f parts urlsData i s = (r1, s1)"
      by (cases "upload_part str now fetch f parts urlsData i s")
    from upload_part_requests [OF step] obtain reqs1 where
      r1: "requests_of (events s1) = requests_of (events s) @ reqs1"
      and p1: "\<forall>p \<in> set reqs1. is_put p"
      and n1: "\<forall>p. r1 = Inr p \<longrightarrow> PartNumber p = i + 1 \<and> length reqs1 = 1"
      by blast
    show ?thesis
    proof (cases r1)
      case (Inl e)
      with True step "1.prems" have "r = Inl e" "s' = s1"
        by (simp_all add: upload_parts.simps [of str now fetch f parts urlsData i acc s])
      with r1 p1 show ?thesis by auto
    next
      case (Inr p)
      with True step "1.prems" have rec:
        "upload_parts str now fetch f parts urlsData (Suc i) (acc @ [p]) s1 = (r, s')"
        by (simp add: upload_parts.simps [of str now fetch f parts urlsData i acc s])
      from True have le: "Suc i \<le> parts" by simp
      from "1.IH" [OF True _ _ rec le] step Inr obtain reqs2 where
        r2: "requests_of (events s') = requests_of (events s1) @ reqs2"
        and p2: "\<forall>q \<in> set reqs2. is_put q"
        and n2: "\<forall>ps. r = Inr ps \<longrightarrow>
              (\<exists>new. ps = (acc @ [p]) @ new \<and> map PartNumber new = [Suc (Suc i)..<Suc parts])
              \<and> length reqs2 = parts - Suc i"
        by auto
      from n1 Inr have pn: "PartNumber p = Suc i" and l1: "length reqs1 = 1" by auto
      have "requests_of (events s') = requests_of (events s) @ (reqs1 @ reqs2)"
        using r1 r2 by simp
      moreover have "\<forall>q \<in> set (reqs1 @ reqs2). is_put q"
        using p1 p2 by auto
      moreover have "\<forall>ps. r = Inr ps \<longrightarrow>
              (\<exists>new. ps = acc @ new \<and> map PartNumber new = [Suc i..<Suc parts])
              \<and> length (reqs1 @ reqs2) = parts - i"
      proof (intro allI impI)
        fix ps assume "r = Inr ps"
        with n2 obtain new where new: "ps = (acc @ [p]) @ new"
          "map PartNumber new = [Suc (Suc i)..<Suc parts]" and l2: "length reqs2 = parts - Suc i"
          by blast
        have "ps = acc @ (p # new)" using new by simp
        moreover have "map PartNumber (p # new) = [Suc i..<Suc parts]"
          using new pn True by (simp add: upt_conv_Cons)
        moreover have "length (reqs1 @ reqs2) = parts - i"
          using l1 l2 True by simp
        ultimately show "(\<exists>new. ps = acc @ new \<and> map PartNumber new = [Suc i..<Suc parts])
              \<and> length (reqs1 @ reqs2) = parts - i"
          by blast
      qed
      ultimately show ?thesis by blast
    qed
  qed
qed

lemma fallback_phase_result:
  "fallback_phase fetch base tok (JObj fs) s = (r, s') \<Longrightarrow>
     (\<exists>d. r = Inr d)
     \<and> requests_of (events s') = requests_of (events s) @
         (if \<not> truthy_val (map_of fs ''analysisStarted'') \<and> truthy_val (opt_prop (map_of fs ''upload'') ''id'')
          then [analyze_request base tok (opt_prop (map_of fs ''upload'') ''id'')] else [])"
  by (auto simp: fallback_phase_def step_defs split: prod.splits sum.splits if_splits)


lemma body_field_start [simp]:
  "body_field (start_request base tok f) ''action'' = Some (JStr ''start-upload'')"
  by (simp add: body_field_def start_request_def obj_lit_def)

lemma body_field_urls [simp]:
  "body_field (urls_request base tok key uploadId n) ''action'' = Some (JStr ''get-upload-urls'')"
  "body_field (urls_request base tok key uploadId n) ''parts'' = Some (JNum (real n))"
  by (cases key; cases uploadId; simp add: body_field_def urls_request_def obj_lit_def)+

lemma body_field_complete [simp]:
  "body_field (complete_request base tok f key uploadId ps) ''action'' = Some (JStr ''complete-upload'')"
  "body_field (complete_request base tok f key uploadId ps) ''parts'' = Some (JArr (map part_json ps))"
  by (cases key; cases uploadId; simp add: body_field_def complete_request_def obj_lit_def)+

lemma body_field_analyze [simp]:
  "body_field (analyze_request base tok i) ''action'' = None"
  "body_field (analyze_request base tok i) ''analysisType'' = Some (JStr ''parameters'')"
  by (simp_all add: body_field_def analyze_request_def obj_lit_def)

lemma body_field_put [simp]: "is_put p \<Longrightarrow> body_field p k = None"
  by (auto simp: is_put_def body_field_def split: option.splits payload.splits)

text \<open>The requests of a whole run, in order.\<close>

lemma run_requests:
  assumes run: "startSimpleMultipart str now fetch domain tok f s = (r, s')"
  shows "requests_of (events s') = requests_of (events s) @ [start_request (strip_trailing_slash domain) tok f]
     \<or> (\<exists>key uploadId puts.
          requests_of (events s') = requests_of (events s) @
            start_request (strip_trailing_slash domain) tok f #
            urls_request (strip_trailing_slash domain) tok key uploadId (parts_of f) # puts
          \<and> (\<forall>p \<in> set puts. is_put p))
     \<or> (\<exists>key uploadId puts ps tl.
          requests_of (events s') = requests_of (events s) @
            start_request (strip_trailing_slash domain) tok f #
            urls_request (strip_trailing_slash domain) tok key uploadId (parts_of f) # puts @
            complete_request (strip_trailing_slash domain) tok f key uploadId ps # tl
          \<and> (\<forall>p \<in> set puts. is_put p)
          \<and> length puts = parts_of f \<and> map PartNumber ps = [1..<Suc (parts_of f)]
          \<and> (tl = [] \<or> (\<exists>i d. tl = [analyze_request (strip_trailing_slash domain) tok i] \<and> r = Inr d)))"
  (is "?A \<or> ?B \<or> ?C")
proof -
  define base where "base = strip_trailing_slash domain"
  define s0 where "s0 = s\<lparr>events := events s @ [Logged ''Begin upload'']\<rparr>"
  have e0: "requests_of (events s0) = requests_of (events s)"
    by (simp add: s0_def)
  obtain r1 s1 where ph1: "start_phase str fetch base tok f s0 = (r1, s1)"
    by (cases "start_phase str fetch base tok f s0")
  have e1: "requests_of (events s1) = requests_of (events s) @ [start_request base tok f]"
    using start_phase_requests [OF ph1] e0 by simp
  show ?thesis
  proof (cases r1)
    case (Inl e)
    with run ph1 have "s' = s1"
      by (simp add: startSimpleMultipart_def andThen_def pushLog_def s0_def base_def)
    with e1 have ?A unfolding base_def by simp
    then show ?thesis by blast
  next
    case startOk: (Inr startData)
    define key where "key = opt_prop (Some startData) ''key''"
    define uploadId where "uploadId = opt_prop (Some startData) ''uploadId''"
    obtain r2 s2 where ph2: "urls_phase fetch base tok key uploadId (parts_of f) s1 = (r2, s2)"
      by (cases "urls_phase fetch base tok key uploadId (parts_of f) s1")
    have e2: "requests_of (events s2) = requests_of (events s) @
        [start_request base tok f, urls_request base tok key uploadId (parts_of f)]"
      using urls_phase_requests [OF ph2] e1 by simp
    show ?thesis
    proof (cases r2)
      case (Inl e)
      with run ph1 ph2 startOk have "s' = s2"
        by (simp add: startSimpleMultipart_def andThen_def pushLog_def s0_def base_def key_def uploadId_def)
      with e2 have ?B unfolding base_def
        by (intro exI [of _ key] exI [of _ uploadId] exI [of _ "[]"]) simp
      then show ?thesis by blast
    next
      case urlsOk: (Inr urlsData)
      obtain r3 s3 where ph3: "upload_parts str now fetch f (parts_of f) urlsData 0 [] s2 = (r3, s3)"
        by (cases "upload_parts str now fetch f (parts_of f) urlsData 0 [] s2")
      from upload_parts_requests [OF ph3] obtain puts where
        e3: "requests_of (events s3) = requests_of (events s2) @ puts"
        and p3: "\<forall>p \<in> set puts. is_put p"
        and n3: "\<forall>ps. r3 = Inr ps \<longrightarrow>
              (\<exists>new. ps = [] @ new \<and> map PartNumber new = [Suc 0..<Suc (parts_of f)])
              \<and> length puts = parts_of f - 0"
        by auto
      show ?thesis
      proof (cases r3)
        case (Inl e)
        with run ph1 ph2 ph3 startOk urlsOk have "s' = s3"
          by (simp add: startSimpleMultipart_def andThen_def pushLog_def s0_def base_def key_def uploadId_def)
        with e2 e3 p3 have ?B unfolding base_def
          by (intro exI [of _ key] exI [of _ uploadId] exI [of _ puts]) simp
        then show ?thesis by blast
      next
        case partsOk: (Inr ps)
        with n3 have pn: "map PartNumber ps = [1..<Suc (parts_of f)]" and lp: "length puts = parts_of f"
          by auto
        obtain r4 s4 where ph4: "complete_phase str fetch base tok f key uploadId ps s3 = (r4, s4)"
          by (cases "complete_phase str fetch base tok f key uploadId ps s3")
        have e4: "requests_of (events s4) = requests_of (events s3) @
            [complete_request base tok f key uploadId ps]"
          using complete_phase_requests [OF ph4] by simp
        show ?thesis
        proof (cases r4)
          case (Inl e)
          with run ph1 ph2 ph3 ph4 startOk urlsOk partsOk have "s' = s4"
            by (simp add: startSimpleMultipart_def andThen_def pushLog_def s0_def base_def key_def uploadId_def)
          with e2 e3 e4 p3 pn lp have ?C unfolding base_def
            by (intro exI [of _ key] exI [of _ uploadId] exI [of _ puts] exI [of _ ps] exI [of _ "[]"]) simp
          then show ?thesis by blast
        next
          case completeOk: (Inr completeData)
          with ph4 obtain fs where fs: "completeData = JObj fs"
            using complete_phase_ok by blast
          from run ph1 ph2 ph3 ph4 startOk urlsOk partsOk completeOk
          have ph5: "fallback_phase fetch base tok (JObj fs) s4 = (r, s')"
            by (simp add: startSimpleMultipart_def andThen_def pushLog_def s0_def base_def key_def
                  uploadId_def fs)
          from fallback_phase_result [OF ph5]
          obtain tl where "requests_of (events s') = requests_of (events s4) @ tl"
            and "tl = [] \<or> (\<exists>i d. tl = [analyze_request base tok i] \<and> r = Inr d)"
            by (auto split: if_splits)
          with e2 e3 e4 p3 pn lp have ?C unfolding base_def
            by (intro exI [of _ key] exI [of _ uploadId] exI [of _ puts] exI [of _ ps] exI [of _ tl]) simp
          then show ?thesis by blast
        qed
      qed
    qed
  qed
qed

lemma not_put [simp]:
  "\<not> is_put (start_request base tok f)"
  "\<not> is_put (urls_request base tok key uploadId n)"
  "\<not> is_put (complete_request base tok f key uploadId ps)"
  "\<not> is_put (analyze_request base tok i)"
  by (simp_all add: is_put_def start_request_def urls_request_def complete_request_def analyze_request_def)

lemma parts_of_remainder:
  assumes "file_size f = 5 * 1024 * 1024 * k + r" and "0 < r" and "r \<le> 5 * 1024 * 1024"
  shows "parts_of f = k + 1"
proof -
  have "real (file_size f) / real CHUNK_SIZE = real k + real r / 5242880"
    using assms by (simp add: CHUNK_SIZE_def field_simps)
  moreover have "0 < real r / 5242880" "real r / 5242880 \<le> 1"
    using assms by simp_all
  ultimately have "\<lceil>real (file_size f) / real CHUNK_SIZE\<rceil> = int k + 1"
    by (intro ceiling_unique) simp_all
  then show ?thesis by (simp add: parts_of_def)
qed

lemmas eval_defs = startSimpleMultipart_def start_phase_def urls_phase_def complete_phase_def
  fallback_phase_def upload_part_def step_defs strip_trailing_slash_def
  start_request_def urls_request_def complete_request_def analyze_request_def put_request_def
  obj_lit_def authHeaders_def headers_or_none_def
  demo_fetch_def demo_server_def body_field_def json_response_def put_response_def
  not_ok_or_not_success_def parse_or_raw_def res_ok_def js_or_def fresh_def
  headers_get_def toLowerCase_def letter_index_def part_json_def obj_spread_def obj_set_def
  show_nat.simps digit_char_def js_round_def slice_def file_size_def CHUNK_SIZE_def
  arrow_left_def arrow_right_def





text \<open>
  C6. For a file of size 5 MiB * k + r, with r the remainder (0 < r \<le> 5 MiB),
  \<open>parts = Math.ceil(f.size / CHUNK_SIZE)\<close> is k + 1; every get-upload-urls request of a
  run carries \<open>parts\<close> = k + 1, and the second request of a run, when there is one, is
  that get-upload-urls request.
\<close>

theorem part_count:
  assumes "file_size f = 5 * 1024 * 1024 * k + r" and "0 < r" and "r \<le> 5 * 1024 * 1024"
  shows "parts_of f = k + 1
     \<and> (\<forall>req \<in> set (requests_of (events (snd (startSimpleMultipart str now fetch domain tok f (fresh w))))).
          body_field req ''action'' = Some (JStr ''get-upload-urls'')
          \<longrightarrow> body_field req ''parts'' = Some (JNum (real (k + 1))))
     \<and> (1 < length (requests_of (events (snd (startSimpleMultipart str now fetch domain tok f (fresh w)))))
          \<longrightarrow> body_field (requests_of (events (snd (startSimpleMultipart str now fetch domain tok f (fresh w)))) ! 1)
                ''action'' = Some (JStr ''get-upload-urls''))"
proof -
  have n: "parts_of f = k + 1"
    using assms by (rule parts_of_remainder)
  obtain r' s' where run: "startSimpleMultipart str now fetch domain tok f (fresh w) = (r', s')"
    by (cases "startSimpleMultipart str now fetch domain tok f (fresh w)")
  have e: "requests_of (events (fresh w)) = []"
    by (simp add: fresh_def)
  from run_requests [OF run] show ?thesis
    unfolding run snd_conv e append_Nil n
    by (elim disjE exE conjE) (auto simp: n nth_Cons split: nat.splits)
qed

theorem part_count_witness:
  "parts_of big_file = 2
   \<and> body_field (requests_of (events (snd (startSimpleMultipart demo_str demo_now (demo_fetch completion_started)
          ''https://api.example.com/'' (Some ''abc123'') big_file (fresh ())))) ! 1) ''parts''
       = Some (JNum 2)"
proof -
  let ?reqs = "requests_of (events (snd (startSimpleMultipart demo_str demo_now (demo_fetch completion_started)
          ''https://api.example.com/'' (Some ''abc123'') big_file (fresh ()))))"
  have sz: "file_size big_file = 5 * 1024 * 1024 * 1 + 1"
    by (simp add: big_file_def file_size_def)
  have r: "(0::nat) < 1" "(1::nat) \<le> 5 * 1024 * 1024"
    by simp_all
  have len: "1 < length ?reqs"
    by (simp add: eval_defs parts_of_def upload_parts.simps big_file_def completion_started_def)
  then have mem: "?reqs ! 1 \<in> set ?reqs"
    by simp
  from part_count [OF sz r, of demo_str demo_now "demo_fetch completion_started"
      "''https://api.example.com/''" "Some ''abc123''" "()"] len mem
  show ?thesis by simp
qed

text \<open>
  C9. Every complete-upload request of a run carries as \<open>parts\<close> a list of
  \<open>{ETag, PartNumber}\<close> records whose part numbers are 1, 2, ..., n in this order, with
  n the computed number of parts, and the run has made exactly n PUT requests by then:
  one record per uploaded chunk.
\<close>

theorem part_numbers:
  "\<forall>req \<in> set (requests_of (events (snd (startSimpleMultipart str now fetch domain tok f (fresh w))))).
      body_field req ''action'' = Some (JStr ''complete-upload'') \<longrightarrow>
        (\<exists>ps. body_field req ''parts'' = Some (JArr (map part_json ps))
            \<and> map PartNumber ps = [1..<Suc (parts_of f)] \<and> length ps = parts_of f)
        \<and> length (filter is_put
             (requests_of (events (snd (startSimpleMultipart str now fetch domain tok f (fresh w))))))
           = parts_of f"
proof -
  obtain r' s' where run: "startSimpleMultipart str now fetch domain tok f (fresh w) = (r', s')"
    by (cases "startSimpleMultipart str now fetch domain tok f (fresh w)")
  have e: "requests_of (events (fresh w)) = []"
    by (simp add: fresh_def)
  have len: "\<And>ps. map PartNumber ps = [1..<Suc (parts_of f)] \<Longrightarrow> length ps = parts_of f"
    by (metis length_map length_upt diff_Suc_1)
  from run_requests [OF run, unfolded e append_Nil]
  consider
    (start) "requests_of (events s') = [start_request (strip_trailing_slash domain) tok f]"
  | (urls) key uploadId puts where
      "requests_of (events s') =
         start_request (strip_trailing_slash domain) tok f #
         urls_request (strip_trailing_slash domain) tok key uploadId (parts_of f) # puts"
      "\<forall>p\<in>set puts. is_put p"
  | (complete) key uploadId puts ps tl where
      "requests_of (events s') =
         start_request (strip_trailing_slash domain) tok f #
         urls_request (strip_trailing_slash domain) tok key uploadId (parts_of f) # puts @
         complete_request (strip_trailing_slash domain) tok f key uploadId ps # tl"
      "\<forall>p\<in>set puts. is_put p" "length puts = parts_of f"
      "map PartNumber ps = [1..<Suc (parts_of f)]"
      "tl = [] \<or> (\<exists>i. tl = [analyze_request (strip_trailing_slash domain) tok i])"
    by blast
  then show ?thesis
  proof cases
    case start
    then show ?thesis unfolding run snd_conv by simp
  next
    case urls
    then show ?thesis unfolding run snd_conv by auto
  next
    case complete
    from complete(2) have fp: "filter is_put puts = puts" by simp
    from complete(5) have ft: "filter is_put tl = []" by auto
    have cnt: "length (filter is_put (requests_of (events s'))) = parts_of f"
      by (simp add: complete(1) fp ft complete(3))
    have "\<forall>req\<in>set (requests_of (events s')).
       body_field req ''action'' = Some (JStr ''complete-upload'') \<longrightarrow>
       (\<exists>ps. body_field req ''parts'' = Some (JArr (map part_json ps)) \<and>
             map PartNumber ps = [1..<Suc (parts_of f)] \<and> length ps = parts_of f)"
      using complete(2,4,5) len [OF complete(4)] unfolding complete(1) by auto
    with cnt show ?thesis unfolding run snd_conv by blast
  qed
qed

theorem part_numbers_witness:
  "map (\<lambda>req. body_field req ''parts'')
     (filter (\<lambda>req. body_field req ''action'' = Some (JStr ''complete-upload''))
        (requests_of (events (snd (startSimpleMultipart demo_str demo_now (demo_fetch completion_started)
          ''https://api.example.com/'' (Some ''abc123'') big_file (fresh ()))))))
   = [Some (JArr [JObj [(''ETag'', JStr ''tag-a''), (''PartNumber'', JNum 1)],
                  JObj [(''ETag'', JStr ''tag-a''), (''PartNumber'', JNum 2)]])]
   \<and> parts_of big_file = 2"
  using part_numbers [where f = big_file and str = demo_str and now = demo_now
      and fetch = "demo_fetch completion_started" and domain = "''https://api.example.com/''"
      and tok = "Some ''abc123''" and w = "()"]
  by (simp add: eval_defs parts_of_def upload_parts.simps big_file_def completion_started_def)

text \<open>
  C1, as stated, fails: the get-URLs phase never compares \<open>urls.length\<close> with the number
  of parts. For a file of one part and a response with two URLs the phase accepts the
  response and the upload runs to its end.
\<close>

theorem urls_length_counterexample:
  "parts_of tiny_file = 1
   \<and> fst (urls_phase (demo_fetch completion_started) ''https://api.example.com'' (Some ''abc123'')
            (Some (JStr ''k1'')) (Some (JStr ''u1'')) (parts_of tiny_file) (fresh ()))
       = Inr (JObj [(''success'', JBool True),
                    (''urls'', JArr [JStr ''https://s3.example.com/p1'', JStr ''https://s3.example.com/p2''])])
   \<and> fst (startSimpleMultipart demo_str demo_now (demo_fetch completion_started)
            ''https://api.example.com/'' (Some ''abc123'') tiny_file (fresh ()))
       = Inr completion_started"
  by (simp add: eval_defs parts_of_def upload_parts.simps tiny_file_def completion_started_def)

text \<open>
  C1, amended. When \<open>fetch\<close> resolves with a response, the get-URLs phase accepts it
  exactly when the status is in 200..299 and the parsed body is an object whose \<open>success\<close>
  is truthy, and it hands that body on as it is; \<open>urls\<close> plays no part in the decision.
\<close>

theorem urls_phase_accepts:
  assumes "fetch (world s) (urls_request base tok key uploadId parts) = (Inr res, w')"
  shows "((\<exists>d. fst (urls_phase fetch base tok key uploadId parts s) = Inr d) \<longleftrightarrow>
            200 \<le> res_status res \<and> res_status res \<le> 299
            \<and> (\<exists>fs v. res_json res = Some (JObj fs) \<and> map_of fs ''success'' = Some v \<and> truthy v))
       \<and> (\<forall>d. fst (urls_phase fetch base tok key uploadId parts s) = Inr d \<longrightarrow> res_json res = Some d)"
proof (cases "res_json res")
  case None
  with assms show ?thesis
    by (auto simp: urls_phase_def step_defs not_ok_or_not_success_def parse_or_raw_def res_ok_def)
next
  case (Some d)
  with assms show ?thesis
    by (cases d)
      (auto simp: urls_phase_def step_defs not_ok_or_not_success_def parse_or_raw_def res_ok_def
         dest: truthy_val_Some)
qed

theorem urls_phase_accepts_witness:
  "fst (urls_phase (demo_fetch completion_started) ''https://api.example.com'' None None None 1 (fresh ()))
     = Inr (JObj [(''success'', JBool True),
                  (''urls'', JArr [JStr ''https://s3.example.com/p1'', JStr ''https://s3.example.com/p2''])])"
proof -
  let ?d = "JObj [(''success'', JBool True),
                  (''urls'', JArr [JStr ''https://s3.example.com/p1'', JStr ''https://s3.example.com/p2''])]"
  have h: "demo_fetch completion_started (world (fresh ()))
             (urls_request ''https://api.example.com'' None None None 1)
           = (Inr (json_response 200 ?d), ())"
    by (simp add: demo_fetch_def demo_server_def fresh_def)
  note acc = urls_phase_accepts [where fetch = "demo_fetch completion_started" and s = "fresh ()", OF h]
  from acc obtain d where
    d: "fst (urls_phase (demo_fetch completion_started) ''https://api.example.com'' None None None 1 (fresh ()))
          = Inr d"
    by (auto simp: json_response_def)
  with acc have "res_json (json_response 200 ?d) = Some d"
    by blast
  with d show ?thesis by (simp add: json_response_def)
qed




section \<open>Properties of the forwarding proxy\<close>

lemma downgrade_fields [simp]:
  "exchanges (downgrade st) = exchanges st" "console (downgrade st) = console st"
  "response (downgrade st) = response st" "upworld (downgrade st) = upworld st"
  "currentUrl (downgrade st) = currentUrl st"
  by (simp_all add: downgrade_def)

lemma loop_body_exchange:
  assumes "loop_body resolve up i st = (r, st')"
  shows "\<exists>out. exchanges st' = exchanges st @ [(request_of st, out)]
           \<and> (r = Inr Continue \<longrightarrow> i \<noteq> maxRedirects)
           \<and> (\<forall>rs. i = maxRedirects \<and> out = Inr rs \<and> is_redirect resolve (request_of st) rs
                 \<longrightarrow> r = Inr Break \<and> response st' = Some rs
                     \<and> console st' \<noteq> [] \<and> last (console st') = ''Too many redirects'')"
  using assms
  by (auto simp: loop_body_def Let_def is_redirect_def request_of_def
        split: prod.splits sum.splits option.splits if_splits)


lemma lower_char_idem [simp]: "lower_char (lower_char c) = lower_char c"
  by (cases c) simp

lemma toLowerCase_idem [simp]: "toLowerCase (toLowerCase k) = toLowerCase k"
  by (simp add: toLowerCase_def)

lemma set_obj_set: "(k', v') \<in> set (obj_set k v h) \<Longrightarrow> (k', v') = (k, v) \<or> (k', v') \<in> set h"
  unfolding obj_set_def by (induction h) (auto split: if_splits)

lemma map_of_obj_set: "map_of (obj_set k v h) = (map_of h)(k \<mapsto> v)"
  by (simp add: obj_set_def update_conv')

lemma set_obj_delete: "set (obj_delete k h) = {p \<in> set h. fst p \<noteq> k}"
  by (auto simp: obj_delete_def AList.delete_eq)

lemma map_of_obj_delete: "map_of (obj_delete k h) = (map_of h)(k := None)"
  by (simp add: obj_delete_def delete_conv')

lemma hdr_inv_downgrade:
  assumes "hdr_inv (currentHeaders st)"
  shows "hdr_inv (currentHeaders (downgrade st))"
    and "\<forall>(k, v) \<in> set (currentHeaders (downgrade st)).
           toLowerCase k \<noteq> ''content-length'' \<and> toLowerCase k \<noteq> ''content-type''"
proof -
  let ?h = "currentHeaders st"
  let ?h1 = "obj_delete ''content-length'' ?h"
  have h': "currentHeaders (downgrade st) = obj_delete ''content-type'' ?h1"
  proof (cases "map_of ?h1 ''content-type''")
    case None
    then have "''content-type'' \<notin> fst ` set ?h1"
      by (simp add: map_of_eq_None_iff)
    then have "obj_delete ''content-type'' ?h1 = ?h1"
      by (simp add: obj_delete_def)
    with None show ?thesis by (simp add: downgrade_def)
  next
    case (Some v)
    then have "map_of ?h ''content-type'' = Some v"
      by (simp add: map_of_obj_delete)
    with assms have "v \<noteq> []" by (simp add: hdr_inv_def)
    with Some show ?thesis by (simp add: downgrade_def)
  qed
  have sub: "set (currentHeaders (downgrade st)) = {p \<in> set ?h. fst p \<noteq> ''content-length'' \<and> fst p \<noteq> ''content-type''}"
    by (auto simp: h' set_obj_delete)
  from assms have low: "\<forall>(k, v) \<in> set ?h. toLowerCase k = k"
    by (simp add: hdr_inv_def)
  show "\<forall>(k, v) \<in> set (currentHeaders (downgrade st)).
           toLowerCase k \<noteq> ''content-length'' \<and> toLowerCase k \<noteq> ''content-type''"
    using low unfolding sub by auto
  have "\<forall>(k, v) \<in> set (currentHeaders (downgrade st)). toLowerCase k = k"
    using low unfolding sub by auto
  moreover have "map_of (currentHeaders (downgrade st)) ''content-type'' = None"
    by (simp add: h' map_of_obj_delete)
  ultimately show "hdr_inv (currentHeaders (downgrade st))"
    by (simp add: hdr_inv_def)
qed


lemma downgrade_request [simp]:
  "ur_method (request_of (downgrade st\<lparr>currentUrl := u\<rparr>)) = ''GET''"
  "ur_body (request_of (downgrade st\<lparr>currentUrl := u\<rparr>)) = None"
  "ur_headers (request_of (downgrade st\<lparr>currentUrl := u\<rparr>)) = currentHeaders (downgrade st)"
  by (simp_all add: request_of_def downgrade_def)

lemma loop_body_ContinueD:
  assumes "loop_body resolve up i st = (Inr Continue, st1)"
  shows "\<exists>rs st2 nextUrl.
           exchanges st2 = exchanges st @ [(request_of st, Inr rs)]
           \<and> currentHeaders st2 = currentHeaders st \<and> currentMethod st2 = currentMethod st
           \<and> currentBody st2 = currentBody st
           \<and> st1 = (if up_status rs = 301 \<or> up_status rs = 302 \<or> up_status rs = 303
                    then downgrade st2 else st2)\<lparr>currentUrl := nextUrl\<rparr>"
proof -
  obtain out w' where u: "up (upworld st) (request_of st) = (out, w')"
    by (cases "up (upworld st) (request_of st)")
  from assms u obtain rs where out: "out = Inr rs"
    by (cases out) (auto simp: loop_body_def)
  define st0 where "st0 = st\<lparr>upworld := w', exchanges := exchanges st @ [(request_of st, Inr rs)],
                        response := Some rs\<rparr>"
  from assms u out obtain location where loc: "headers_get (up_headers rs) ''location'' = Some location"
    by (cases "headers_get (up_headers rs) ''location''") (auto simp: loop_body_def Let_def)
  define st2 where "st2 = st0\<lparr>console := console st0 @
                                    [''<- '' @ show_nat (up_status rs) @ '' redirect to: '' @ location]\<rparr>"
  have red: "300 \<le> up_status rs \<and> up_status rs < 400 \<and> location \<noteq> []"
    using assms u out loc by (auto simp: loop_body_def Let_def split: if_splits)
  obtain nextUrl where nx: "resolve location (currentUrl st) = Some nextUrl"
    using assms u out loc red
    by (cases "resolve location (currentUrl st)") (auto simp: loop_body_def Let_def)
  have "st1 = (if up_status rs = 301 \<or> up_status rs = 302 \<or> up_status rs = 303
                    then downgrade st2 else st2)\<lparr>currentUrl := nextUrl\<rparr>"
    using assms u out loc red nx
    by (auto simp: loop_body_def Let_def st2_def st0_def split: if_splits)
  moreover have "exchanges st2 = exchanges st @ [(request_of st, Inr rs)]"
    "currentHeaders st2 = currentHeaders st" "currentMethod st2 = currentMethod st"
    "currentBody st2 = currentBody st"
    by (simp_all add: st2_def st0_def)
  ultimately show ?thesis by blast
qed

lemma loop_body_continue:
  assumes "loop_body resolve up i st = (Inr Continue, st1)" and "hdr_inv (currentHeaders st)"
  shows "\<exists>rs. exchanges st1 = exchanges st @ [(request_of st, Inr rs)]
            \<and> (\<forall>out'. follows_rule (request_of st, Inr rs) (request_of st1, out'))
            \<and> hdr_inv (currentHeaders st1)"
proof -
  from loop_body_ContinueD [OF assms(1)] obtain rs st2 nextUrl where
    ex: "exchanges st2 = exchanges st @ [(request_of st, Inr rs)]"
    and same: "currentHeaders st2 = currentHeaders st" "currentMethod st2 = currentMethod st"
      "currentBody st2 = currentBody st"
    and st1: "st1 = (if up_status rs = 301 \<or> up_status rs = 302 \<or> up_status rs = 303
                    then downgrade st2 else st2)\<lparr>currentUrl := nextUrl\<rparr>"
    by blast
  from assms(2) same have inv2: "hdr_inv (currentHeaders st2)" by simp
  show ?thesis
  proof (cases "up_status rs = 301 \<or> up_status rs = 302 \<or> up_status rs = 303")
    case True
    with st1 have s: "st1 = downgrade st2\<lparr>currentUrl := nextUrl\<rparr>" by simp
    have "exchanges st1 = exchanges st @ [(request_of st, Inr rs)]"
      using ex by (simp add: s)
    moreover have "\<forall>out'. follows_rule (request_of st, Inr rs) (request_of st1, out')"
      using True hdr_inv_downgrade(2) [OF inv2] by (simp add: follows_rule_def s)
    moreover have "hdr_inv (currentHeaders st1)"
      using hdr_inv_downgrade(1) [OF inv2] by (simp add: s)
    ultimately show ?thesis by blast
  next
    case False
    with st1 have s: "st1 = st2\<lparr>currentUrl := nextUrl\<rparr>" by simp
    have "exchanges st1 = exchanges st @ [(request_of st, Inr rs)]"
      using ex by (simp add: s)
    moreover have "\<forall>out'. follows_rule (request_of st, Inr rs) (request_of st1, out')"
      using False same by (simp add: follows_rule_def s request_of_def)
    moreover have "hdr_inv (currentHeaders st1)"
      using inv2 by (simp add: s)
    ultimately show ?thesis by blast
  qed
qed

lemma follow_rule:
  "follow resolve up i st = (r, st') \<Longrightarrow> hdr_inv (currentHeaders st) \<Longrightarrow>
     \<exists>new. exchanges st' = exchanges st @ new
        \<and> (new \<noteq> [] \<longrightarrow> fst (hd new) = request_of st)
        \<and> (\<forall>n. Suc n < length new \<longrightarrow> follows_rule (new ! n) (new ! Suc n))"
proof (induction resolve up i st arbitrary: r st' rule: follow.induct)
  case (1 resolve up i st)
  show ?case
  proof (cases "i \<le> maxRedirects")
    case False
    with "1.prems" show ?thesis
      by (simp add: follow.simps)
  next
    case True
    obtain r1 st1 where body: "loop_body resolve up i st = (r1, st1)"
      by (cases "loop_body resolve up i st")
    show ?thesis
    proof (cases "r1 = Inr Continue")
      case False
      with True body "1.prems" have st': "st' = st1"
        by (auto simp: follow.simps [of resolve up i st] split: sum.splits loop_ctl.splits)
      from loop_body_exchange [OF body] obtain out where
        "exchanges st1 = exchanges st @ [(request_of st, out)]"
        by blast
      with st' have "exchanges st' = exchanges st @ [(request_of st, out)]" by simp
      then show ?thesis
        by (intro exI [of _ "[(request_of st, out)]"]) simp
    next
      case Cont: True
      from Cont True body "1.prems" have rec: "follow resolve up (Suc i) st1 = (r, st')"
        by (simp add: follow.simps [of resolve up i st])
      from loop_body_continue [OF body [unfolded Cont] "1.prems"(2)] obtain rs where
        e1: "exchanges st1 = exchanges st @ [(request_of st, Inr rs)]"
        and f1: "\<forall>out'. follows_rule (request_of st, Inr rs) (request_of st1, out')"
        and inv1: "hdr_inv (currentHeaders st1)"
        by blast
      from "1.IH" [OF True body [symmetric] _ _ rec inv1] Cont obtain new2 where
        e2: "exchanges st' = exchanges st1 @ new2"
        and h2: "new2 \<noteq> [] \<longrightarrow> fst (hd new2) = request_of st1"
        and f2: "\<forall>n. Suc n < length new2 \<longrightarrow> follows_rule (new2 ! n) (new2 ! Suc n)"
        by auto
      let ?new = "(request_of st, Inr rs) # new2"
      have "exchanges st' = exchanges st @ ?new"
        using e1 e2 by simp
      moreover have "?new \<noteq> [] \<longrightarrow> fst (hd ?new) = request_of st"
        by simp
      moreover have "\<forall>n. Suc n < length ?new \<longrightarrow> follows_rule (?new ! n) (?new ! Suc n)"
      proof (intro allI impI)
        fix n assume n: "Suc n < length ?new"
        show "follows_rule (?new ! n) (?new ! Suc n)"
        proof (cases n)
          case 0
          with n have ne: "new2 \<noteq> []" by auto
          with h2 have "new2 ! 0 = (request_of st1, snd (new2 ! 0))"
            by (cases new2) (auto simp: prod_eq_iff)
          with f1 0 show ?thesis
            by (metis nth_Cons_0 nth_Cons_Suc)
        next
          case (Suc m)
          with n f2 show ?thesis by simp
        qed
      qed
      ultimately show ?thesis by blast
    qed
  qed
qed

lemma hdr_inv_obj_set:
  assumes "hdr_inv h" and "toLowerCase k = k" and "k = ''content-type'' \<longrightarrow> v \<noteq> []"
  shows "hdr_inv (obj_set k v h)"
  using assms unfolding hdr_inv_def
  by (auto simp: map_of_obj_set dest!: set_obj_set)

lemma hdr_inv_fold:
  assumes "hdr_inv acc"
    and "\<forall>(k, v) \<in> set hs. toLowerCase k = ''content-type'' \<longrightarrow> (case v of Single s \<Rightarrow> True | Multi xs \<Rightarrow> False)"
  shows "hdr_inv (fold fwd_step hs acc)"
  using assms
proof (induction hs arbitrary: acc)
  case Nil
  then show ?case by simp
next
  case (Cons kv hs)
  obtain k v where kv: "kv = (k, v)" by (cases kv)
  have "hdr_inv (fwd_step kv acc)"
  proof (cases "hval_truthy v \<and> toLowerCase k \<notin> set hopByHop")
    case False
    with Cons.prems(1) show ?thesis by (auto simp: fwd_step_def kv)
  next
    case True
    have "toLowerCase k = ''content-type'' \<longrightarrow> hval_string v \<noteq> []"
      using Cons.prems(2) True by (cases v) (auto simp: kv)
    with True Cons.prems(1) show ?thesis
      by (auto simp: fwd_step_def kv intro!: hdr_inv_obj_set)
  qed
  with Cons show ?case by simp
qed

lemma lower_accept_encoding: "toLowerCase ''accept-encoding'' = ''accept-encoding''"
  by (simp add: toLowerCase_def letter_index_def)

lemma lower_content_length: "toLowerCase ''content-length'' = ''content-length''"
  by (simp add: toLowerCase_def letter_index_def)

lemma hdr_inv_fwdHeaders:
  assumes "\<forall>(k, v) \<in> set hs. toLowerCase k = ''content-type'' \<longrightarrow> (case v of Single s \<Rightarrow> True | Multi xs \<Rightarrow> False)"
  shows "hdr_inv (fwdHeaders_of hs)"
    and "hdr_inv (obj_set ''content-length'' n (fwdHeaders_of hs))"
proof -
  have "hdr_inv []" by (simp add: hdr_inv_def)
  from hdr_inv_fold [OF this assms] show 1: "hdr_inv (fwdHeaders_of hs)"
    unfolding fwdHeaders_of_def
    by (intro hdr_inv_obj_set) (simp_all add: lower_accept_encoding)
  then show "hdr_inv (obj_set ''content-length'' n (fwdHeaders_of hs))"
    by (intro hdr_inv_obj_set) (simp_all add: lower_content_length)
qed

lemma finish_follow:
  assumes "follow resolve up 0 (init_state target method h body w) = (r, st)"
  shows "out_exchanges (finish resolve up target method h body w) = exchanges st"
    and "out_console (finish resolve up target method h body w) = console st"
    and "out_reply (finish resolve up target method h body w) =
           (case r of
              Inl e \<Rightarrow> on_error e reply_init
            | Inr u \<Rightarrow> (case relay (response st) reply_init of
                          (Inl e, rp) \<Rightarrow> on_error e rp
                        | (Inr u', rp) \<Rightarrow> rp))"
  using assms
  by (auto simp: finish_def init_state_def split: sum.splits prod.splits)

lemma forward_cases:
  "(\<exists>rp. forward resolve up target req w = early rp w)
   \<or> (\<exists>method body.
        forward resolve up target req w
          = finish resolve up target method (fwdHeaders_of (in_headers req)) body w)
   \<or> (\<exists>method body n.
        forward resolve up target req w
          = finish resolve up target method
              (obj_set ''content-length'' n (fwdHeaders_of (in_headers req))) body w)"
proof -
  define mth where "mth = toUpperCase (case in_method req of None \<Rightarrow> ''GET''
                                | Some m \<Rightarrow> if m \<noteq> [] then m else ''GET'')"
  show ?thesis
  proof (cases "mth \<in> set [''GET'', ''HEAD'']")
    case True
    then have "forward resolve up target req w
        = finish resolve up target mth (fwdHeaders_of (in_headers req)) None w"
      unfolding forward_def Let_def mth_def by simp
    then show ?thesis by blast
  next
    case False
    show ?thesis
    proof (cases "in_body req")
      case (Inl e)
      with False have "forward resolve up target req w = early (on_error e reply_init) w"
        unfolding forward_def Let_def mth_def by simp
      then show ?thesis by blast
    next
      case (Inr chunks)
      show ?thesis
      proof (cases "chunks = []")
        case True
        with False Inr have "forward resolve up target req w
            = finish resolve up target mth (fwdHeaders_of (in_headers req)) None w"
          unfolding forward_def Let_def mth_def by simp
        then show ?thesis by blast
      next
        case ne: False
        with False Inr have "forward resolve up target req w
            = finish resolve up target mth
                (obj_set ''content-length'' (show_nat (length (concat chunks)))
                   (fwdHeaders_of (in_headers req)))
                (Some (concat chunks)) w"
          unfolding forward_def Let_def mth_def by simp
        then show ?thesis by blast
      qed
    qed
  qed
qed

lemma proxy_cases:
  "(\<exists>rp. proxy origin resolve up req w = early rp w)
   \<or> (\<exists>target method body.
        proxy origin resolve up req w
          = finish resolve up target method (fwdHeaders_of (in_headers req)) body w)
   \<or> (\<exists>target method body n.
        proxy origin resolve up req w
          = finish resolve up target method
              (obj_set ''content-length'' n (fwdHeaders_of (in_headers req))) body w)"
proof -
  have "(\<exists>rp. proxy origin resolve up req w = early rp w)
      \<or> (\<exists>target. proxy origin resolve up req w = forward resolve up target req w)"
    unfolding proxy_def by (auto split: sum.splits option.splits)
  then show ?thesis
    using forward_cases [of resolve up _ req w] by metis
qed

lemma fold_copy_header [simp]:
  "statusCode (fold copy_header hs rp) = statusCode rp"
  "body_sent (fold copy_header hs rp) = body_sent rp"
  by (induction hs arbitrary: rp) (auto simp: copy_header_def setHeader_def split: prod.splits)


lemma follow_unfold:
  "follow resolve up i st =
     (if i \<le> maxRedirects then
        (case fst (loop_body resolve up i st) of
           Inl e \<Rightarrow> (Inl e, snd (loop_body resolve up i st))
         | Inr c \<Rightarrow> (case c of
                      Continue \<Rightarrow> follow resolve up (Suc i) (snd (loop_body resolve up i st))
                    | Break \<Rightarrow> (Inr (), snd (loop_body resolve up i st))))
      else (Inr (), st))"
  by (subst follow.simps) (simp split: prod.splits sum.splits loop_ctl.splits)

lemmas proxy_eval = proxy_def forward_def finish_def target_base_def check_base_def is_http_url_def
  toLowerCase_def toUpperCase_def letter_index_def fwdHeaders_of_def fwd_step_def
  hopByHop_def obj_set_def obj_delete_def follow_unfold loop_body_def request_of_def downgrade_def
  maxRedirects_def headers_get_def show_nat.simps digit_char_def relay_def copy_header_def
  setHeader_def reply_init_def on_error_def early_def end_with_def Let_def
  post_request_def always_redirect_def redirect_once_def redirect_response_def ok_response_def
  demo_resolve_def demo_origin_def

lemma early_exchanges [simp]: "out_exchanges (early rp w) = []"
  by (simp add: early_def)

lemma init_state_fields [simp]:
  "exchanges (init_state target method h body w) = []"
  "currentHeaders (init_state target method h body w) = h"
  by (simp_all add: init_state_def)


lemma finish_rule:
  assumes "hdr_inv h"
    and "Suc n < length (out_exchanges (finish resolve up target method h body w))"
  shows "follows_rule (out_exchanges (finish resolve up target method h body w) ! n)
           (out_exchanges (finish resolve up target method h body w) ! Suc n)"
proof -
  obtain r st' where f: "follow resolve up 0 (init_state target method h body w) = (r, st')"
    by (cases "follow resolve up 0 (init_state target method h body w)")
  from follow_rule [OF f] assms(1) obtain new where
    "exchanges st' = new"
    and "\<forall>n. Suc n < length new \<longrightarrow> follows_rule (new ! n) (new ! Suc n)"
    by auto
  with assms(2) show ?thesis
    by (simp add: finish_follow(1) [OF f])
qed


lemma run_once_302:
  "proxy demo_origin demo_resolve (redirect_once 302) post_request 0 =
     \<lparr>out_reply =
        \<lparr>statusCode = 200,
         headers_sent = [(''content-type'', ''application/json''), (''Content-Length'', ''2'')],
         body_sent = RawBody [123, 125]\<rparr>,
      out_exchanges =
        [(\<lparr>ur_url = ''https://a.example.com/api/upload-large'', ur_method = ''POST'',
            ur_headers = [(''content-type'', ''text/plain;charset=UTF-8''),
                          (''authorization'', ''Bearer abc123''),
                          (''accept-encoding'', ''identity''),
                          (''content-length'', ''3'')],
            ur_body = Some [1, 2, 3]\<rparr>, Inr (redirect_response 302)),
         (\<lparr>ur_url = ''https://b.example.com/next'', ur_method = ''GET'',
            ur_headers = [(''authorization'', ''Bearer abc123''), (''accept-encoding'', ''identity'')],
            ur_body = None\<rparr>, Inr ok_response)],
      out_console = [''<- 302 redirect to: https://b.example.com/next''],
      out_world = Suc (Suc 0)\<rparr>"
  by (simp add: proxy_eval)

lemma run_once_307:
  "proxy demo_origin demo_resolve (redirect_once 307) post_request 0 =
     \<lparr>out_reply =
        \<lparr>statusCode = 200,
         headers_sent = [(''content-type'', ''application/json''), (''Content-Length'', ''2'')],
         body_sent = RawBody [123, 125]\<rparr>,
      out_exchanges =
        [(\<lparr>ur_url = ''https://a.example.com/api/upload-large'', ur_method = ''POST'',
            ur_headers = [(''content-type'', ''text/plain;charset=UTF-8''),
                          (''authorization'', ''Bearer abc123''),
                          (''accept-encoding'', ''identity''),
                          (''content-length'', ''3'')],
            ur_body = Some [1, 2, 3]\<rparr>, Inr (redirect_response 307)),
         (\<lparr>ur_url = ''https://b.example.com/next'', ur_method = ''POST'',
            ur_headers = [(''content-type'', ''text/plain;charset=UTF-8''),
                          (''authorization'', ''Bearer abc123''),
                          (''accept-encoding'', ''identity''),
                          (''content-length'', ''3'')],
            ur_body = Some [1, 2, 3]\<rparr>, Inr ok_response)],
      out_console = [''<- 307 redirect to: https://b.example.com/next''],
      out_world = Suc (Suc 0)\<rparr>"
  by (simp add: proxy_eval)




text \<open>
  C8. For two consecutive upstream requests of a run of the proxy, when the response to
  the first has status 301, 302 or 303 the second is a GET with no body and with no
  header named \<open>content-length\<close> or \<open>content-type\<close> in any case of the letters; when
  it has status 307 or 308 the second has the method, the body and the headers of the
  first. The incoming \<open>content-type\<close> header is a single string, as Node gives it
  (only \<open>set-cookie\<close> comes as an array).
\<close>

theorem redirect_downgrade:
  assumes wf: "\<forall>(k, v) \<in> set (in_headers req).
                 toLowerCase k = ''content-type'' \<longrightarrow> (case v of Single s \<Rightarrow> True | Multi xs \<Rightarrow> False)"
    and n: "Suc n < length (out_exchanges (proxy origin resolve up req w))"
    and cur: "out_exchanges (proxy origin resolve up req w) ! n = (rq, Inr rs)"
    and nxt: "out_exchanges (proxy origin resolve up req w) ! Suc n = (rq', out')"
  shows "(up_status rs = 301 \<or> up_status rs = 302 \<or> up_status rs = 303 \<longrightarrow>
            ur_method rq' = ''GET'' \<and> ur_body rq' = None
            \<and> (\<forall>(k, v) \<in> set (ur_headers rq').
                  toLowerCase k \<noteq> ''content-length'' \<and> toLowerCase k \<noteq> ''content-type''))
       \<and> (up_status rs = 307 \<or> up_status rs = 308 \<longrightarrow>
            ur_method rq' = ur_method rq \<and> ur_body rq' = ur_body rq
            \<and> ur_headers rq' = ur_headers rq)"
proof -
  have "\<exists>target mth h body'.
          proxy origin resolve up req w = finish resolve up target mth h body' w
          \<and> (h = fwdHeaders_of (in_headers req)
              \<or> (\<exists>m. h = obj_set ''content-length'' m (fwdHeaders_of (in_headers req))))"
    using proxy_cases [of origin resolve up req w]
  proof (elim disjE exE)
    fix rp assume "proxy origin resolve up req w = early rp w"
    with n show ?thesis by simp
  next
    fix target mth body
    assume "proxy origin resolve up req w
          = finish resolve up target mth (fwdHeaders_of (in_headers req)) body w"
    then show ?thesis by blast
  next
    fix target mth body m
    assume "proxy origin resolve up req w
          = finish resolve up target mth
              (obj_set ''content-length'' m (fwdHeaders_of (in_headers req))) body w"
    then show ?thesis by blast
  qed
  then obtain target mth h body' where
    p: "proxy origin resolve up req w = finish resolve up target mth h body' w"
    and h: "h = fwdHeaders_of (in_headers req)
            \<or> (\<exists>m. h = obj_set ''content-length'' m (fwdHeaders_of (in_headers req)))"
    by blast
  from h hdr_inv_fwdHeaders [OF wf] have inv: "hdr_inv h"
    by auto
  from finish_rule [OF inv n [unfolded p]] cur nxt
  have "follows_rule (rq, Inr rs) (rq', out')"
    by (simp add: p)
  then show ?thesis
    by (auto simp: follows_rule_def)
qed

theorem redirect_downgrade_witness:
  "ur_method (fst (out_exchanges (proxy demo_origin demo_resolve (redirect_once 302) post_request 0) ! 1)) = ''GET''
   \<and> ur_body (fst (out_exchanges (proxy demo_origin demo_resolve (redirect_once 302) post_request 0) ! 1)) = None
   \<and> ur_headers (fst (out_exchanges (proxy demo_origin demo_resolve (redirect_once 302) post_request 0) ! 1))
       = [(''authorization'', ''Bearer abc123''), (''accept-encoding'', ''identity'')]
   \<and> ur_method (fst (out_exchanges (proxy demo_origin demo_resolve (redirect_once 307) post_request 0) ! 1))
       = ''POST''
   \<and> ur_body (fst (out_exchanges (proxy demo_origin demo_resolve (redirect_once 307) post_request 0) ! 1))
       = Some [1, 2, 3]"
proof -
  let ?a = "proxy demo_origin demo_resolve (redirect_once 302) post_request 0"
  let ?b = "proxy demo_origin demo_resolve (redirect_once 307) post_request 0"
  have wf: "\<forall>(k, v) \<in> set (in_headers post_request).
              toLowerCase k = ''content-type'' \<longrightarrow> (case v of Single s \<Rightarrow> True | Multi xs \<Rightarrow> False)"
    by (simp add: post_request_def)
  have na: "Suc 0 < length (out_exchanges ?a)" and nb: "Suc 0 < length (out_exchanges ?b)"
    by (simp_all add: run_once_302 run_once_307)
  have a0: "out_exchanges ?a ! 0 = (fst (out_exchanges ?a ! 0), Inr (redirect_response 302))"
    and a1: "out_exchanges ?a ! Suc 0 = (fst (out_exchanges ?a ! 1), Inr ok_response)"
    by (simp_all add: run_once_302)
  have b0: "out_exchanges ?b ! 0 = (fst (out_exchanges ?b ! 0), Inr (redirect_response 307))"
    and b1: "out_exchanges ?b ! Suc 0 = (fst (out_exchanges ?b ! 1), Inr ok_response)"
    by (simp_all add: run_once_307)
  have s: "up_status (redirect_response 302) = 302" "up_status (redirect_response 307) = 307"
    by (simp_all add: redirect_response_def)
  from redirect_downgrade [OF wf na a0 a1] redirect_downgrade [OF wf nb b0 b1] s
  have "ur_method (fst (out_exchanges ?a ! 1)) = ''GET''"
    and "ur_body (fst (out_exchanges ?a ! 1)) = None"
    and "\<forall>(k, v) \<in> set (ur_headers (fst (out_exchanges ?a ! 1))).
           toLowerCase k \<noteq> ''content-length'' \<and> toLowerCase k \<noteq> ''content-type''"
    and "ur_method (fst (out_exchanges ?b ! 1)) = ur_method (fst (out_exchanges ?b ! 0))"
    and "ur_body (fst (out_exchanges ?b ! 1)) = ur_body (fst (out_exchanges ?b ! 0))"
    by simp_all
  moreover have "ur_method (fst (out_exchanges ?b ! 0)) = ''POST''"
    "ur_body (fst (out_exchanges ?b ! 0)) = Some [1, 2, 3]"
    by (simp_all add: run_once_307)
  moreover have "ur_headers (fst (out_exchanges ?a ! 1))
       = [(''authorization'', ''Bearer abc123''), (''accept-encoding'', ''identity'')]"
    by (simp add: run_once_302)
  ultimately show ?thesis by simp
qed

end
